theory Spec2Isabelle
  imports
    Main
    "HOL-Library.Word"
    "HOL-Library.Char_ord"
    "HOL-Library.List_Lexorder"
begin

section \<open>The parallel manager (src/unnamed/part\_003)\<close>

subsection \<open>Data\<close>

text \<open>
  Go's fixed-width integers are words: \<open>int64\<close> and \<open>uint64\<close> are \<open>64 word\<close> (read
  signed with \<open>sint\<close> and \<open><s\<close>, unsigned with \<open>unat\<close> and \<open><\<close>), \<open>uint32\<close> is
  \<open>32 word\<close>. Addition and subtraction wrap, as Go specifies.
\<close>

type_synonym int64 = "64 word"
type_synonym uint64 = "64 word"
type_synonym uint32 = "32 word"

text \<open>Maximum number of parallel workers.\<close>

definition maxParallelWorkers :: uint32 where
  "maxParallelWorkers = 128"

text \<open>
  Monitor tick to decide to add new workers. A \<open>time.Duration\<close> is an \<open>int64\<close> of
  nanoseconds and \<open>time.Second\<close> is \<open>1000000000\<close>.
\<close>

definition Second :: int64 where
  "Second = 1000000000"

definition monitorPeriod :: int64 where
  "monitorPeriod = 4 * Second"

text \<open>
  A task: the function to execute (kept abstract, of type \<open>'f\<close>), the barrier flag and
  the upload size (an \<open>int64\<close>).
\<close>

record 'f task =
  fn :: 'f
  barrier :: bool
  uploadSize :: int64

text \<open>
  \<open>sync.RWMutex\<close> of the Go standard library, as the number of read holds and the
  write hold. An acquisition that would block returns \<open>None\<close>; a release of a hold
  that is not there is a fatal error of the Go runtime and returns \<open>None\<close> as well.
  (Go also makes \<open>RLock\<close> wait while a writer is waiting; that only removes
  behaviours and is left out.)
\<close>

record RWMutex =
  readerCount :: nat
  writerHeld :: bool

definition Lock :: "RWMutex \<Rightarrow> RWMutex option" where
  "Lock m = (if readerCount m = 0 \<and> \<not> writerHeld m
             then Some (m\<lparr>writerHeld := True\<rparr>) else None)"

definition RLock :: "RWMutex \<Rightarrow> RWMutex option" where
  "RLock m = (if \<not> writerHeld m
              then Some (m\<lparr>readerCount := readerCount m + 1\<rparr>) else None)"

definition Unlock :: "RWMutex \<Rightarrow> RWMutex option" where
  "Unlock m = (if writerHeld m then Some (m\<lparr>writerHeld := False\<rparr>) else None)"

definition RUnlock :: "RWMutex \<Rightarrow> RWMutex option" where
  "RUnlock m = (if 0 < readerCount m
                then Some (m\<lparr>readerCount := readerCount m - 1\<rparr>) else None)"

text \<open>
  The manager. \<open>queueCh\<close> is an unbuffered channel: the list holds the tasks whose
  senders stand at \<open>p.queueCh <- t\<close> and have not been received yet. The wait group,
  the result channel and the stop channel carry no data that the functions below read.
\<close>

record 'f ParallelManager =
  sentBytes :: int64
  barrierSync :: RWMutex
  workersNum :: uint32
  queueCh :: "'f task list"
  maxMem :: uint64

subsection \<open>addWorker\<close>

text \<open>
  \<open>addWorker\<close> returns at once when the count has reached the maximum; otherwise it
  adds one to the count and starts a worker goroutine (the worker's loop is in the
  steps of \<open>runStep\<close> further down).
\<close>

definition addWorker :: "'f ParallelManager \<Rightarrow> 'f ParallelManager" where
  "addWorker p =
     (if workersNum p \<ge> maxParallelWorkers then p
      else p\<lparr>workersNum := workersNum p + 1\<rparr>)"

text \<open>\<open>for i := 0; i < n; i++ { p.addWorker() }\<close> with \<open>n\<close> a Go \<open>int\<close>.\<close>

definition addWorkers :: "int \<Rightarrow> 'f ParallelManager \<Rightarrow> 'f ParallelManager" where
  "addWorkers n p = (addWorker ^^ nat n) p"

subsection \<open>Memory admission\<close>

text \<open>
  What a call comes to: a panic with its message, a wait for the lock that cannot end
  in this state, or a return with a value.
\<close>

datatype 'a outcome = Panic string | Blocked | Done 'a

definition partSize :: uint64 where
  "partSize = 128 * 1024 * 1024"

definition estimateNeededMemoryForUpload :: "uint64 \<Rightarrow> uint64" where
  "estimateNeededMemoryForUpload sz =
     (let parallel = sz div partSize
      in if parallel \<ge> 3 then 3 * partSize else sz)"

text \<open>
  \<open>enoughMemForUpload\<close>; \<open>alloc\<close> is \<open>smem.Alloc\<close> as \<open>runtime.ReadMemStats\<close> reports
  it at the call. The first test of the source, \<open>uploadSize < 0\<close> on a \<open>uint64\<close>,
  is kept as written.
\<close>

definition enoughMemForUpload :: "'f ParallelManager \<Rightarrow> uint64 \<Rightarrow> uint64 \<Rightarrow> bool outcome" where
  "enoughMemForUpload p alloc usize =
     (if usize < 0 then Panic ''unexpected size''
      else if usize = 0 \<or> maxMem p = 0 then Done True
      else Done (estimateNeededMemoryForUpload usize + alloc < maxMem p))"

text \<open>
  The first statement of \<open>doQueueTask\<close>: the task with its barrier flag set when there
  is not enough memory. \<open>uint64(t.uploadSize)\<close> keeps the bits.
\<close>

definition doQueueTask_class :: "'f ParallelManager \<Rightarrow> uint64 \<Rightarrow> 'f task \<Rightarrow> 'f task outcome" where
  "doQueueTask_class p alloc t =
     (case enoughMemForUpload p alloc (uploadSize t) of
        Panic s \<Rightarrow> Panic s
      | Blocked \<Rightarrow> Blocked
      | Done enough \<Rightarrow> Done (if \<not> enough then t\<lparr>barrier := True\<rparr> else t))"

text \<open>
  \<open>doQueueTask\<close>: the class, then the exclusive or the shared hold, then the send.
  \<open>Blocked\<close> when the hold cannot be taken in this state of the lock.
\<close>

definition doQueueTask :: "'f ParallelManager \<Rightarrow> uint64 \<Rightarrow> 'f task \<Rightarrow> 'f ParallelManager outcome" where
  "doQueueTask p alloc t =
     (case doQueueTask_class p alloc t of
        Panic s \<Rightarrow> Panic s
      | Blocked \<Rightarrow> Blocked
      | Done t' \<Rightarrow>
          (case (if barrier t' then Lock (barrierSync p) else RLock (barrierSync p)) of
             None \<Rightarrow> Blocked
           | Some m \<Rightarrow> Done (p\<lparr>barrierSync := m, queueCh := queueCh p @ [t']\<rparr>)))"

definition queueTask :: "'f ParallelManager \<Rightarrow> uint64 \<Rightarrow> 'f \<Rightarrow> int64 \<Rightarrow> 'f ParallelManager outcome" where
  "queueTask p alloc f sz = doQueueTask p alloc \<lparr>fn = f, barrier = False, uploadSize = sz\<rparr>"

definition queueTaskWithBarrier :: "'f ParallelManager \<Rightarrow> uint64 \<Rightarrow> 'f \<Rightarrow> int64 \<Rightarrow> 'f ParallelManager outcome" where
  "queueTaskWithBarrier p alloc f sz = doQueueTask p alloc \<lparr>fn = f, barrier = True, uploadSize = sz\<rparr>"

subsection \<open>newParallelManager\<close>

text \<open>
  \<open>mem.VirtualMemory()\<close> is \<open>None\<close> when it returns an error and the available bytes
  otherwise. The budget \<open>uint64(float64(available) * 0.8)\<close> is floating point: it is
  the parameter \<open>budget\<close>. With an error \<open>maxMem\<close> keeps the zero value of its
  \<open>float64\<close> and the field is \<open>uint64(0.0) = 0\<close>.
\<close>

definition freshManager :: "(uint64 \<Rightarrow> uint64) \<Rightarrow> uint64 option \<Rightarrow> 'f ParallelManager" where
  "freshManager budget memStats =
     \<lparr>sentBytes = 0,
      barrierSync = \<lparr>readerCount = 0, writerHeld = False\<rparr>,
      workersNum = 0,
      queueCh = [],
      maxMem = (case memStats of None \<Rightarrow> 0 | Some available \<Rightarrow> budget available)\<rparr>"

text \<open>The struct literal, then \<open>runtime.NumCPU()\<close> calls of \<open>addWorker\<close>.\<close>

definition newParallelManager ::
  "(uint64 \<Rightarrow> uint64) \<Rightarrow> uint64 option \<Rightarrow> int \<Rightarrow> 'f ParallelManager" where
  "newParallelManager budget memStats numCPU = addWorkers numCPU (freshManager budget memStats)"

subsection \<open>The throughput monitor\<close>

text \<open>
  The local variables of the monitor goroutine. \<open>retry\<close> is a Go \<open>int\<close>; the loop
  returns as soon as it passes 2, so it never leaves the range of any \<open>int\<close> width.
\<close>

record monitor =
  prevSentBytes :: int64
  maxBandwidth :: int64
  retry :: int

definition monitorInit :: monitor where
  "monitorInit = \<lparr>prevSentBytes = 0, maxBandwidth = 0, retry = 0\<rparr>"

text \<open>
  One \<open>ticker.C\<close> case of the loop. \<open>defaultWorkerFactor\<close> is
  \<open>runtime.GOMAXPROCS(0)\<close>. The result holds the manager and the monitor's variables,
  or \<open>None\<close> for them when the goroutine has returned.
\<close>

definition monitorTick ::
  "int \<Rightarrow> 'f ParallelManager \<Rightarrow> monitor \<Rightarrow> 'f ParallelManager \<times> monitor option" where
  "monitorTick defaultWorkerFactor p m =
     (let bandwidth = sentBytes p - prevSentBytes m;
          m1 = m\<lparr>prevSentBytes := sentBytes p\<rparr>
      in if bandwidth \<le>s maxBandwidth m1 then
           (let m2 = m1\<lparr>retry := retry m1 + 1\<rparr>
            in if retry m2 > 2 then (p, None)
               else (addWorkers defaultWorkerFactor p, Some m2))
         else
           (let m2 = m1\<lparr>retry := 0, maxBandwidth := bandwidth\<rparr>
            in (addWorkers defaultWorkerFactor p, Some m2)))"

text \<open>
  The events the monitor goroutine reacts to: a tick, before which \<open>Read\<close> calls of
  the workers have brought \<open>sentBytes\<close> to the given value, or the closing of
  \<open>stopMonitorCh\<close>.
\<close>

datatype monitorEvent = Tick int64 | Stop

fun monitorStep ::
  "int \<Rightarrow> 'f ParallelManager \<times> monitor option \<Rightarrow> monitorEvent \<Rightarrow> 'f ParallelManager \<times> monitor option" where
  "monitorStep f (p, None) (Tick b) = (p\<lparr>sentBytes := b\<rparr>, None)"
| "monitorStep f (p, Some m) (Tick b) = monitorTick f (p\<lparr>sentBytes := b\<rparr>) m"
| "monitorStep f (p, mo) Stop = (p, None)"

text \<open>The states a run goes through, one after each event, the first one included.\<close>

fun monitorRun ::
  "int \<Rightarrow> 'f ParallelManager \<times> monitor option \<Rightarrow> monitorEvent list \<Rightarrow> ('f ParallelManager \<times> monitor option) list" where
  "monitorRun f s [] = [s]"
| "monitorRun f s (e # es) = s # monitorRun f (monitorStep f s e) es"

text \<open>
  A whole run, as the managers it goes through: the struct literal, the manager as
  \<open>newParallelManager\<close> returns it (after the startup loop, with the monitor
  started), then the manager after each event of the monitor.
\<close>

definition managerRun ::
  "(uint64 \<Rightarrow> uint64) \<Rightarrow> uint64 option \<Rightarrow> int \<Rightarrow> int \<Rightarrow> monitorEvent list \<Rightarrow> 'f ParallelManager list" where
  "managerRun budget memStats numCPU defaultWorkerFactor es =
     freshManager budget memStats #
     map fst (monitorRun defaultWorkerFactor
                (newParallelManager budget memStats numCPU, Some monitorInit) es)"

text \<open>
  The estimate in the words of the specification: the full upload size, capped at
  three part buffers of 128 MiB once the size reaches three parts.
\<close>

definition cappedUploadEstimate :: "uint64 \<Rightarrow> uint64" where
  "cappedUploadEstimate u = (if 3 * (128 * 1024 * 1024) \<le> u then 3 * (128 * 1024 * 1024) else u)"

subsection \<open>Queueing and the workers, step by step\<close>

text \<open>
  The goroutines of a run, interleaved. Besides the manager a state holds the tasks
  that a worker has received and whose function is running (\<open>executing\<close>), and the
  tasks whose function has returned while their worker has not yet released the hold
  (\<open>finishing\<close>: the worker sends the result on \<open>resultCh\<close>, then unlocks).
\<close>

record 'f run =
  manager :: "'f ParallelManager"
  executing :: "'f task list"
  finishing :: "'f task list"

text \<open>
  The steps: a call of \<open>doQueueTask\<close> with the allocated memory it reads; a worker
  receiving the task of the \<open>i\<close>-th waiting sender; the function of the \<open>i\<close>-th
  executing task returning; the worker of the \<open>i\<close>-th finishing task sending the result
  and releasing the hold; a call of \<open>addWorker\<close>; a call of \<open>Read\<close> with a buffer
  of the given length.
\<close>

datatype 'f event =
  Queue uint64 "'f task"
| Receive nat
| Return nat
| Release nat
| AddWorker
| Read int64

text \<open>The list without its \<open>i\<close>-th element.\<close>

definition dropAt :: "nat \<Rightarrow> 'a list \<Rightarrow> 'a list" where
  "dropAt i xs = take i xs @ drop (Suc i) xs"

text \<open>
  One step, or \<open>None\<close> when the step cannot be taken in this state: \<open>doQueueTask\<close>
  waits for the lock, a receive needs a waiting sender and a worker that is in
  neither list, and a release of a hold that is not there is a fatal error.
\<close>

fun runStep :: "'f run \<Rightarrow> 'f event \<Rightarrow> 'f run option" where
  "runStep r (Queue alloc t) =
     (case doQueueTask (manager r) alloc t of
        Done p \<Rightarrow> Some (r\<lparr>manager := p\<rparr>)
      | Blocked \<Rightarrow> None
      | Panic s \<Rightarrow> None)"
| "runStep r (Receive i) =
     (if i < length (queueCh (manager r)) \<and>
         length (executing r) + length (finishing r) < unat (workersNum (manager r))
      then Some (r\<lparr>manager := (manager r)\<lparr>queueCh := dropAt i (queueCh (manager r))\<rparr>,
                   executing := executing r @ [queueCh (manager r) ! i]\<rparr>)
      else None)"
| "runStep r (Return i) =
     (if i < length (executing r)
      then Some (r\<lparr>executing := dropAt i (executing r),
                   finishing := finishing r @ [executing r ! i]\<rparr>)
      else None)"
| "runStep r (Release i) =
     (if i < length (finishing r)
      then (case (if barrier (finishing r ! i) then Unlock (barrierSync (manager r))
                  else RUnlock (barrierSync (manager r))) of
              None \<Rightarrow> None
            | Some m \<Rightarrow> Some (r\<lparr>manager := (manager r)\<lparr>barrierSync := m\<rparr>,
                               finishing := dropAt i (finishing r)\<rparr>))
      else None)"
| "runStep r AddWorker = Some (r\<lparr>manager := addWorker (manager r)\<rparr>)"
| "runStep r (Read n) = Some (r\<lparr>manager := (manager r)\<lparr>sentBytes := sentBytes (manager r) + n\<rparr>\<rparr>)"

fun runEvents :: "'f run \<Rightarrow> 'f event list \<Rightarrow> 'f run option" where
  "runEvents r [] = Some r"
| "runEvents r (e # es) = (case runStep r e of None \<Rightarrow> None | Some r' \<Rightarrow> runEvents r' es)"

text \<open>The run starts with the manager as \<open>newParallelManager\<close> returns it.\<close>

definition initialRun :: "(uint64 \<Rightarrow> uint64) \<Rightarrow> uint64 option \<Rightarrow> int \<Rightarrow> 'f run" where
  "initialRun budget memStats numCPU =
     \<lparr>manager = newParallelManager budget memStats numCPU, executing = [], finishing = []\<rparr>"

text \<open>
  The tasks that hold the lock: from their \<open>doQueueTask\<close> to the release by their
  worker.
\<close>

definition heldTasks :: "'f run \<Rightarrow> 'f task list" where
  "heldTasks r = queueCh (manager r) @ executing r @ finishing r"

text \<open>
  The invariant of the lock: the read holds are those of the held tasks without the
  barrier flag, the write hold is that of the one held task with the flag, and the
  write hold excludes read holds.
\<close>

definition gateInvariant :: "'f run \<Rightarrow> bool" where
  "gateInvariant r =
     (readerCount (barrierSync (manager r)) = length (filter (\<lambda>t. \<not> barrier t) (heldTasks r)) \<and>
      length (filter barrier (heldTasks r)) = (if writerHeld (barrierSync (manager r)) then 1 else 0) \<and>
      (writerHeld (barrierSync (manager r)) \<longrightarrow> readerCount (barrierSync (manager r)) = 0))"

text \<open>A run of four tasks, the third over the memory budget, for concrete checks.\<close>

definition exampleEvents :: "string event list" where
  "exampleEvents =
     [Queue 100 \<lparr>fn = ''small'', barrier = False, uploadSize = 10\<rparr>,
      Receive 0,
      Queue 100 \<lparr>fn = ''other'', barrier = False, uploadSize = 20\<rparr>,
      Return 0, Receive 0, Release 0, Return 0, Release 0,
      Queue 100 \<lparr>fn = ''large'', barrier = False, uploadSize = 5000\<rparr>,
      Receive 0]"

section \<open>Mirror URLs (src/unnamed/part\_002 and src/cmd/mirror-url.go)\<close>

subsection \<open>Strings\<close>

text \<open>\<open>strings.HasPrefix\<close>, \<open>strings.HasSuffix\<close> and \<open>strings.TrimPrefix\<close> of Go.\<close>

definition HasPrefix :: "string \<Rightarrow> string \<Rightarrow> bool" where
  "HasPrefix s pre = (length s \<ge> length pre \<and> take (length pre) s = pre)"

definition HasSuffix :: "string \<Rightarrow> string \<Rightarrow> bool" where
  "HasSuffix s suf = (length s \<ge> length suf \<and> drop (length s - length suf) s = suf)"

definition TrimPrefix :: "string \<Rightarrow> string \<Rightarrow> string" where
  "TrimPrefix s pre = (if HasPrefix s pre then drop (length pre) s else s)"

subsection \<open>Data\<close>

text \<open>
  The kinds of difference. The declaration of the type is not in these sources; the
  constructors are the constants the two files name, and \<open>differOther\<close> stands for any
  other value of the type, which the \<open>default\<close> branch of the switch receives.
  \<open>differInMMSourceMTime\<close> is the name that src/cmd/mirror-url.go has for the constant
  that src/unnamed/part\_002 calls \<open>differInAASourceMTime\<close>.
\<close>

datatype differType =
  differInUnknown
| differInNone
| differInSize
| differInMetadata
| differInType
| differInFirst
| differInSecond
| differInAASourceMTime
| differOther int

abbreviation differInMMSourceMTime :: differType where
  "differInMMSourceMTime \<equiv> differInAASourceMTime"

text \<open>
  Errors: the three constructors the files call, the trace that \<open>Trace\<close> adds, and
  the errors that come from the clients and the listings.
\<close>

datatype probeError =
  errInvalidTarget string
| errOverWriteNotAllowed string
| errUnrecognizedDiffType differType
| Trace probeError "string list"
| clientError string

text \<open>
  \<open>ClientContent\<close> with the one field these files set; \<open>'u\<close> is the type of a parsed
  URL (\<open>ClientURL\<close>).
\<close>

record 'u ClientContent =
  URL :: 'u

text \<open>
  A message of the difference channel. The field \<open>Error\<close> of the source is
  \<open>Error_diff\<close> here; \<open>None\<close> is the nil pointer.
\<close>

record 'u diffMessage =
  FirstURL :: string
  SecondURL :: string
  Diff :: differType
  Error_diff :: "probeError option"
  firstContent :: "'u ClientContent option"
  secondContent :: "'u ClientContent option"

text \<open>
  A message of the result channel. \<open>ErrorCond\<close> is \<open>None\<close> where the struct literal
  of the source does not set it (src/cmd/mirror-url.go never does).
\<close>

record 'u URLs =
  SourceAlias :: string
  SourceContent :: "'u ClientContent option"
  TargetAlias :: string
  TargetContent :: "'u ClientContent option"
  Error :: "probeError option"
  ErrorCond :: "differType option"

text \<open>The struct literal \<open>URLs{}\<close>: every field at its zero value.\<close>

definition URLs0 :: "'u URLs" where
  "URLs0 = \<lparr>SourceAlias = [], SourceContent = None, TargetAlias = [], TargetContent = None,
            Error = None, ErrorCond = None\<rparr>"

text \<open>
  The options of src/unnamed/part\_002, without the two maps (\<open>encKeyDB\<close>,
  \<open>userMetadata\<close>), which \<open>deltaSourceTarget\<close> does not read.
\<close>

record mirrorOptions =
  isFake :: bool
  isOverwrite :: bool
  activeActive :: bool
  isWatch :: bool
  isRemove :: bool
  isMetadata :: bool
  excludeOptions :: "string list"
  md5 :: bool
  disableMultipart :: bool
  olderThan :: string
  newerThan :: string
  storageClass :: string

text \<open>
  The functions that \<open>deltaSourceTarget\<close> calls and that are declared outside these
  sources or in other packages; \<open>'c\<close> is the type of a client, \<open>'t\<close> the type of a
  time. \<open>Separator\<close> is \<open>string(u.Separator)\<close>. \<open>mustExpandAlias\<close> gives the alias and
  the expanded URL. \<open>objectDifference\<close> gives the messages that its channel delivers
  until it is closed, in the signature of src/unnamed/part\_002;
  \<open>objectDifference_mirror_url\<close> is the one of src/cmd/mirror-url.go, with the arguments
  \<open>after\<close> and \<open>timeRef\<close>. \<open>wildcardMatch\<close> is \<open>wildcard.Match\<close>.
\<close>

record ('u, 'c, 't) collaborators =
  newClientURL :: "string \<Rightarrow> 'u"
  Separator :: "'u \<Rightarrow> string"
  mustExpandAlias :: "string \<Rightarrow> string \<times> string"
  newClientFromAlias :: "string \<Rightarrow> string \<Rightarrow> probeError + 'c"
  objectDifference :: "'c \<Rightarrow> 'c \<Rightarrow> string \<Rightarrow> string \<Rightarrow> bool \<Rightarrow> 'u diffMessage list"
  objectDifference_mirror_url ::
    "'c \<Rightarrow> 'c \<Rightarrow> string \<Rightarrow> string \<Rightarrow> bool \<Rightarrow> 't \<Rightarrow> bool \<Rightarrow> 'u diffMessage list"
  wildcardMatch :: "string \<Rightarrow> string \<Rightarrow> bool"
  urlJoinPath :: "string \<Rightarrow> string \<Rightarrow> string"

subsection \<open>matchExcludeOptions\<close>

fun matchExcludeOptions :: "(string \<Rightarrow> string \<Rightarrow> bool) \<Rightarrow> string list \<Rightarrow> string \<Rightarrow> bool" where
  "matchExcludeOptions wm [] srcSuffix = False"
| "matchExcludeOptions wm (pattern # rest) srcSuffix =
     (if wm pattern srcSuffix then True else matchExcludeOptions wm rest srcSuffix)"

subsection \<open>deltaSourceTarget of src/unnamed/part\_002\<close>

text \<open>
  The message that copies the first content of a difference to the target path: the
  struct literal that the branches of \<open>differInSize\<close> and \<open>differInFirst\<close> both send.
\<close>

definition copyURLs ::
  "('u, 'c, 't) collaborators \<Rightarrow> string \<Rightarrow> string \<Rightarrow> string \<Rightarrow> string \<Rightarrow> 'u diffMessage \<Rightarrow> 'u URLs" where
  "copyURLs env sourceAlias sourceURL targetAlias targetURL diffMsg =
     (let sourceSuffix = TrimPrefix (FirstURL diffMsg) sourceURL;
          targetPath = urlJoinPath env targetURL sourceSuffix;
          sourceContent = firstContent diffMsg;
          targetContent = Some \<lparr>URL = newClientURL env targetPath\<rparr>
      in URLs0\<lparr>SourceAlias := sourceAlias, SourceContent := sourceContent,
               TargetAlias := targetAlias, TargetContent := targetContent\<rparr>)"

text \<open>
  The body of the loop over the difference channel: the messages it sends on
  \<open>URLsCh\<close> for one difference message, in order. The cases of the switch are tried
  in the order of the source.
\<close>

definition deltaSourceTarget_event ::
  "('u, 'c, 't) collaborators \<Rightarrow> mirrorOptions \<Rightarrow> string \<Rightarrow> string \<Rightarrow> string \<Rightarrow> string \<Rightarrow>
   'u diffMessage \<Rightarrow> 'u URLs list" where
  "deltaSourceTarget_event env opts sourceAlias sourceURL targetAlias targetURL diffMsg =
     (if Error_diff diffMsg \<noteq> None then
        [URLs0\<lparr>Error := Error_diff diffMsg, ErrorCond := Some differInUnknown\<rparr>]
      else
        let srcSuffix = TrimPrefix (FirstURL diffMsg) sourceURL in
        if matchExcludeOptions (wildcardMatch env) (excludeOptions opts) srcSuffix then []
        else
          let tgtSuffix = TrimPrefix (SecondURL diffMsg) targetURL in
          if matchExcludeOptions (wildcardMatch env) (excludeOptions opts) tgtSuffix then []
          else if Diff diffMsg = differInNone then []
          else if Diff diffMsg = differInType then
            [URLs0\<lparr>Error := Some (errInvalidTarget (SecondURL diffMsg))\<rparr>]
          else if Diff diffMsg = differInSize \<or> Diff diffMsg = differInMetadata
                  \<or> Diff diffMsg = differInAASourceMTime then
            (if \<not> isOverwrite opts \<and> \<not> isFake opts \<and> \<not> activeActive opts then
               [URLs0\<lparr>Error := Some (errOverWriteNotAllowed (SecondURL diffMsg)),
                       ErrorCond := Some (Diff diffMsg)\<rparr>]
             else [copyURLs env sourceAlias sourceURL targetAlias targetURL diffMsg])
          else if Diff diffMsg = differInFirst then
            [copyURLs env sourceAlias sourceURL targetAlias targetURL diffMsg]
          else if Diff diffMsg = differInSecond then
            (if \<not> isRemove opts \<and> \<not> isFake opts then []
             else [URLs0\<lparr>TargetAlias := targetAlias, TargetContent := secondContent diffMsg\<rparr>])
          else
            [URLs0\<lparr>Error := Some (Trace (errUnrecognizedDiffType (Diff diffMsg))
                                       [FirstURL diffMsg, SecondURL diffMsg]),
                    ErrorCond := Some (Diff diffMsg)\<rparr>])"

text \<open>
  The whole function: the messages sent on \<open>URLsCh\<close> before it is closed. The
  context argument (cancellation) is not modelled.
\<close>

definition deltaSourceTarget ::
  "('u, 'c, 't) collaborators \<Rightarrow> string \<Rightarrow> string \<Rightarrow> mirrorOptions \<Rightarrow> 'u URLs list" where
  "deltaSourceTarget env sourceURL targetURL opts =
     (let sourceSeparator = Separator env (newClientURL env sourceURL);
          sourceURL1 = (if \<not> HasSuffix sourceURL sourceSeparator
                        then sourceURL @ sourceSeparator else sourceURL);
          targetSeparator = Separator env (newClientURL env targetURL);
          targetURL1 = (if \<not> HasSuffix targetURL targetSeparator
                        then targetURL @ targetSeparator else targetURL);
          (sourceAlias, sourceURL2) = mustExpandAlias env sourceURL1;
          (targetAlias, targetURL2) = mustExpandAlias env targetURL1
      in case newClientFromAlias env sourceAlias sourceURL2 of
           Inl err \<Rightarrow> [URLs0\<lparr>Error := Some (Trace err [sourceAlias, sourceURL2])\<rparr>]
         | Inr sourceClnt \<Rightarrow>
             (case newClientFromAlias env targetAlias targetURL2 of
                Inl err \<Rightarrow> [URLs0\<lparr>Error := Some (Trace err [targetAlias, targetURL2])\<rparr>]
              | Inr targetClnt \<Rightarrow>
                  concat (map (deltaSourceTarget_event env opts sourceAlias sourceURL2
                                 targetAlias targetURL2)
                            (objectDifference env sourceClnt targetClnt sourceURL2 targetURL2
                               (isMetadata opts)))))"

subsection \<open>deltaSourceTarget of src/cmd/mirror-url.go\<close>

text \<open>
  The same function in src/cmd/mirror-url.go: the flags are arguments, there is no
  active-active flag, and no message sets \<open>ErrorCond\<close>. \<open>encKeyDB\<close> is not read.
\<close>

definition deltaSourceTarget_event_mirror_url ::
  "('u, 'c, 't) collaborators \<Rightarrow> bool \<Rightarrow> bool \<Rightarrow> bool \<Rightarrow> string list \<Rightarrow>
   string \<Rightarrow> string \<Rightarrow> string \<Rightarrow> string \<Rightarrow> 'u diffMessage \<Rightarrow> 'u URLs list" where
  "deltaSourceTarget_event_mirror_url env isFake' isOverwrite' isRemove' excludeOptions'
       sourceAlias sourceURL targetAlias targetURL diffMsg =
     (if Error_diff diffMsg \<noteq> None then [URLs0\<lparr>Error := Error_diff diffMsg\<rparr>]
      else
        let srcSuffix = TrimPrefix (FirstURL diffMsg) sourceURL in
        if matchExcludeOptions (wildcardMatch env) excludeOptions' srcSuffix then []
        else
          let tgtSuffix = TrimPrefix (SecondURL diffMsg) targetURL in
          if matchExcludeOptions (wildcardMatch env) excludeOptions' tgtSuffix then []
          else if Diff diffMsg = differInNone then []
          else if Diff diffMsg = differInType then
            [URLs0\<lparr>Error := Some (errInvalidTarget (SecondURL diffMsg))\<rparr>]
          else if Diff diffMsg = differInSize \<or> Diff diffMsg = differInMetadata
                  \<or> Diff diffMsg = differInMMSourceMTime then
            (if \<not> isOverwrite' \<and> \<not> isFake' then
               [URLs0\<lparr>Error := Some (errOverWriteNotAllowed (SecondURL diffMsg))\<rparr>]
             else [copyURLs env sourceAlias sourceURL targetAlias targetURL diffMsg])
          else if Diff diffMsg = differInFirst then
            [copyURLs env sourceAlias sourceURL targetAlias targetURL diffMsg]
          else if Diff diffMsg = differInSecond then
            (if \<not> isRemove' \<and> \<not> isFake' then []
             else [URLs0\<lparr>TargetAlias := targetAlias, TargetContent := secondContent diffMsg\<rparr>])
          else
            [URLs0\<lparr>Error := Some (Trace (errUnrecognizedDiffType (Diff diffMsg))
                                       [FirstURL diffMsg, SecondURL diffMsg])\<rparr>])"

definition deltaSourceTarget_mirror_url ::
  "('u, 'c, 't) collaborators \<Rightarrow> string \<Rightarrow> string \<Rightarrow> bool \<Rightarrow> bool \<Rightarrow> bool \<Rightarrow> bool \<Rightarrow> 't \<Rightarrow>
   bool \<Rightarrow> string list \<Rightarrow> 'u URLs list" where
  "deltaSourceTarget_mirror_url env sourceURL targetURL isFake' isOverwrite' isRemove' after timeRef
       isMetadata' excludeOptions' =
     (let sourceSeparator = Separator env (newClientURL env sourceURL);
          sourceURL1 = (if \<not> HasSuffix sourceURL sourceSeparator
                        then sourceURL @ sourceSeparator else sourceURL);
          targetSeparator = Separator env (newClientURL env targetURL);
          targetURL1 = (if \<not> HasSuffix targetURL targetSeparator
                        then targetURL @ targetSeparator else targetURL);
          (sourceAlias, sourceURL2) = mustExpandAlias env sourceURL1;
          (targetAlias, targetURL2) = mustExpandAlias env targetURL1
      in case newClientFromAlias env sourceAlias sourceURL2 of
           Inl err \<Rightarrow> [URLs0\<lparr>Error := Some (Trace err [sourceAlias, sourceURL2])\<rparr>]
         | Inr sourceClnt \<Rightarrow>
             (case newClientFromAlias env targetAlias targetURL2 of
                Inl err \<Rightarrow> [URLs0\<lparr>Error := Some (Trace err [targetAlias, targetURL2])\<rparr>]
              | Inr targetClnt \<Rightarrow>
                  concat (map (deltaSourceTarget_event_mirror_url env isFake' isOverwrite' isRemove'
                                 excludeOptions' sourceAlias sourceURL2 targetAlias targetURL2)
                            (objectDifference_mirror_url env sourceClnt targetClnt sourceURL2
                               targetURL2 after timeRef isMetadata'))))"

text \<open>
  \<open>prepareMirrorURLs\<close> makes the channel, starts \<open>deltaSourceTarget\<close> on it and returns
  it: its messages are those of \<open>deltaSourceTarget\<close>.
\<close>

definition prepareMirrorURLs ::
  "('u, 'c, 't) collaborators \<Rightarrow> string \<Rightarrow> string \<Rightarrow> mirrorOptions \<Rightarrow> 'u URLs list" where
  "prepareMirrorURLs env sourceURL targetURL opts = deltaSourceTarget env sourceURL targetURL opts"

subsection \<open>Concrete collaborators and options\<close>

text \<open>
  Stand-ins for concrete runs: URLs are kept as strings with separator \<open>/\<close>, every alias
  expands to itself under the name \<open>''play''\<close>, clients are their URLs, a pattern
  matches when it is \<open>*\<close> or equal to the name (as \<open>wildcard.Match\<close> does on these
  patterns), and joining appends the suffix to a root that ends in the separator.
\<close>

definition exampleEnv :: "string diffMessage list \<Rightarrow> (string, string, int) collaborators" where
  "exampleEnv msgs =
     \<lparr>newClientURL = (\<lambda>u. u),
      Separator = (\<lambda>u. ''/''),
      mustExpandAlias = (\<lambda>u. (''play'', u)),
      newClientFromAlias = (\<lambda>a u. Inr u),
      objectDifference = (\<lambda>s t su tu md. msgs),
      objectDifference_mirror_url = (\<lambda>s t su tu af tr md. msgs),
      wildcardMatch = (\<lambda>p n. p = ''*'' \<or> p = n),
      urlJoinPath = (\<lambda>a b. a @ b)\<rparr>"

definition exampleOptions :: "bool \<Rightarrow> bool \<Rightarrow> bool \<Rightarrow> bool \<Rightarrow> string list \<Rightarrow> mirrorOptions" where
  "exampleOptions fake overwrite aa remove excl =
     \<lparr>isFake = fake, isOverwrite = overwrite, activeActive = aa, isWatch = False,
      isRemove = remove, isMetadata = False, excludeOptions = excl, md5 = False,
      disableMultipart = False, olderThan = [], newerThan = [], storageClass = []\<rparr>"

text \<open>A difference message of the given kind with the given first and second URLs.\<close>

definition exampleDiff :: "differType \<Rightarrow> string \<Rightarrow> string \<Rightarrow> string diffMessage" where
  "exampleDiff d first second =
     \<lparr>FirstURL = first, SecondURL = second, Diff = d, Error_diff = None,
      firstContent = (if first = [] then None else Some \<lparr>URL = first\<rparr>),
      secondContent = (if second = [] then None else Some \<lparr>URL = second\<rparr>)\<rparr>"

section \<open>The content difference engine\<close>

text \<open>
  Modelled from the spec: the source of the difference engine (\<open>objectDifference\<close>,
  called by \<open>deltaSourceTarget\<close>) is not among these sources. The definitions of this
  section follow sections 3 and 4.2 of the specification. A listing is a sequence of
  listing entries; read errors of the underlying listing and cancellation are not part
  of a listing and are not modelled.
\<close>

datatype entryKind = FileEntry | DirectoryEntry

text \<open>
  Modelled from the spec: a listing entry, with its relative key, size in bytes,
  last-modified timestamp, kind, optional version identifier, optional checksum,
  user metadata and delete-marker flag.
\<close>

record ListingEntry =
  key :: string
  entrySize :: nat
  lastModified :: int
  kind :: entryKind
  versionId :: "string option"
  checksum :: "string option"
  userMetadata :: "(string \<times> string) list"
  deleteMarker :: bool

text \<open>
  Modelled from the spec: the outcome of comparing two entries with equal keys. The
  specification names what is compared (kind, size, checksum or timestamp, metadata)
  but not the rules, so the comparison is a parameter of the engine with this result
  type.
\<close>

datatype comparison = Same | KindDiffers | SizeDiffers | MetadataDiffers | TimestampDiffers

text \<open>
  Modelled from the spec: a difference event, a tagged variant that carries the
  entries it is about (or, for a listing error, the key).
\<close>

datatype DiffEvent =
  Identical ListingEntry ListingEntry
| OnlyInSource ListingEntry
| OnlyInTarget ListingEntry
| TypeMismatch ListingEntry ListingEntry
| SizeMismatch ListingEntry ListingEntry
| MetadataMismatch ListingEntry ListingEntry
| TimestampConflict ListingEntry ListingEntry
| ListingError string

fun comparisonEvent :: "comparison \<Rightarrow> ListingEntry \<Rightarrow> ListingEntry \<Rightarrow> DiffEvent" where
  "comparisonEvent Same a b = Identical a b"
| "comparisonEvent KindDiffers a b = TypeMismatch a b"
| "comparisonEvent SizeDiffers a b = SizeMismatch a b"
| "comparisonEvent MetadataDiffers a b = MetadataMismatch a b"
| "comparisonEvent TimestampDiffers a b = TimestampConflict a b"

text \<open>The key an event is about.\<close>

fun eventKey :: "DiffEvent \<Rightarrow> string" where
  "eventKey (Identical a b) = key a"
| "eventKey (OnlyInSource a) = key a"
| "eventKey (OnlyInTarget b) = key b"
| "eventKey (TypeMismatch a b) = key a"
| "eventKey (SizeMismatch a b) = key a"
| "eventKey (MetadataMismatch a b) = key a"
| "eventKey (TimestampConflict a b) = key a"
| "eventKey (ListingError k) = k"

text \<open>
  Modelled from the spec: the synchronized merge of section 4.2, one cursor per side.
  While both sides have entries the current keys are compared: equal keys give the
  comparison event and advance both cursors, a smaller source key gives
  \<open>OnlyInSource\<close> and advances the source cursor, a greater one gives \<open>OnlyInTarget\<close>
  and advances the target cursor. When one side is exhausted the rest of the other is
  flushed in order. Keys are compared as strings, in lexicographic order.
\<close>

fun differenceEngine ::
  "(ListingEntry \<Rightarrow> ListingEntry \<Rightarrow> comparison) \<Rightarrow> ListingEntry list \<Rightarrow> ListingEntry list \<Rightarrow> DiffEvent list" where
  "differenceEngine cmp (s # src) (t # tgt) =
     (if key s = key t then comparisonEvent (cmp s t) s t # differenceEngine cmp src tgt
      else if key s < key t then OnlyInSource s # differenceEngine cmp src (t # tgt)
      else OnlyInTarget t # differenceEngine cmp (s # src) tgt)"
| "differenceEngine cmp (s # src) [] = OnlyInSource s # differenceEngine cmp src []"
| "differenceEngine cmp [] (t # tgt) = OnlyInTarget t # differenceEngine cmp [] tgt"
| "differenceEngine cmp [] [] = []"

text \<open>A file entry with the given key and size, and a comparison by kind and size, for concrete listings.\<close>

definition exampleEntry :: "string \<Rightarrow> nat \<Rightarrow> ListingEntry" where
  "exampleEntry k n =
     \<lparr>key = k, entrySize = n, lastModified = 0, kind = FileEntry, versionId = None,
      checksum = None, userMetadata = [], deleteMarker = False\<rparr>"

definition exampleCompare :: "ListingEntry \<Rightarrow> ListingEntry \<Rightarrow> comparison" where
  "exampleCompare a b =
     (if kind a \<noteq> kind b then KindDiffers
      else if entrySize a \<noteq> entrySize b then SizeDiffers
      else Same)"

text \<open>A manager with the given worker count, byte counter and memory budget, for concrete runs.\<close>

definition exampleManager :: "uint32 \<Rightarrow> int64 \<Rightarrow> uint64 \<Rightarrow> unit ParallelManager" where
  "exampleManager w b mm =
     \<lparr>sentBytes = b, barrierSync = \<lparr>readerCount = 0, writerHeld = False\<rparr>,
      workersNum = w, queueCh = [], maxMem = mm\<rparr>"

section \<open>Properties of the parallel manager\<close>

lemma enoughMemForUpload_no_panic: "enoughMemForUpload p alloc u \<noteq> Panic s"
  by (simp add: enoughMemForUpload_def)

lemma addWorker_mono: "workersNum p \<le> workersNum (addWorker p)"
proof (cases "workersNum p \<ge> maxParallelWorkers")
  case True
  then show ?thesis by (simp add: addWorker_def)
next
  case False
  then have "workersNum p < 128" by (simp add: maxParallelWorkers_def)
  then have "workersNum p \<le> workersNum p + 1"
    by (simp add: word_le_nat_alt word_less_nat_alt unat_word_ariths)
  with False show ?thesis by (simp add: addWorker_def)
qed

lemma addWorker_bound:
  assumes "workersNum p \<le> maxParallelWorkers"
  shows "workersNum (addWorker p) \<le> maxParallelWorkers"
proof (cases "workersNum p \<ge> maxParallelWorkers")
  case True
  with assms show ?thesis by (simp add: addWorker_def)
next
  case False
  then have "workersNum p < 128" by (simp add: maxParallelWorkers_def)
  then have "workersNum p + 1 \<le> 128"
    by (simp add: word_le_nat_alt word_less_nat_alt unat_word_ariths)
  with False show ?thesis by (simp add: addWorker_def maxParallelWorkers_def)
qed

lemma maxMem_addWorker [simp]: "maxMem (addWorker p) = maxMem p"
  by (simp add: addWorker_def)

lemma maxMem_funpow_addWorker: "maxMem ((addWorker ^^ n) p) = maxMem p"
  by (induction n) simp_all

lemma maxMem_addWorkers [simp]: "maxMem (addWorkers n p) = maxMem p"
  by (simp add: addWorkers_def maxMem_funpow_addWorker)

lemma funpow_addWorker_mono: "workersNum p \<le> workersNum ((addWorker ^^ n) p)"
proof (induction n)
  case 0 show ?case by simp
next
  case (Suc n)
  have "workersNum ((addWorker ^^ n) p) \<le> workersNum (addWorker ((addWorker ^^ n) p))"
    by (rule addWorker_mono)
  with Suc show ?case by simp
qed

lemma funpow_addWorker_bound:
  "workersNum p \<le> maxParallelWorkers \<Longrightarrow> workersNum ((addWorker ^^ n) p) \<le> maxParallelWorkers"
  by (induction n) (simp_all add: addWorker_bound)

lemma addWorkers_mono: "workersNum p \<le> workersNum (addWorkers n p)"
  by (simp add: addWorkers_def funpow_addWorker_mono)

lemma addWorkers_bound:
  "workersNum p \<le> maxParallelWorkers \<Longrightarrow> workersNum (addWorkers n p) \<le> maxParallelWorkers"
  by (simp add: addWorkers_def funpow_addWorker_bound)

lemma monitorTick_mono: "workersNum p \<le> workersNum (fst (monitorTick f p m))"
  by (simp add: monitorTick_def Let_def addWorkers_mono)

lemma monitorTick_bound:
  "workersNum p \<le> maxParallelWorkers \<Longrightarrow> workersNum (fst (monitorTick f p m)) \<le> maxParallelWorkers"
  by (simp add: monitorTick_def Let_def addWorkers_bound)

lemma monitorStep_mono: "workersNum (fst s) \<le> workersNum (fst (monitorStep f s e))"
proof (cases s)
  case (Pair p mo)
  show ?thesis
  proof (cases e)
    case (Tick b)
    show ?thesis
    proof (cases mo)
      case None
      with Pair Tick show ?thesis by simp
    next
      case (Some m)
      have "workersNum (p\<lparr>sentBytes := b\<rparr>) \<le> workersNum (fst (monitorTick f (p\<lparr>sentBytes := b\<rparr>) m))"
        by (rule monitorTick_mono)
      with Pair Tick Some show ?thesis by simp
    qed
  next
    case Stop
    with Pair show ?thesis by simp
  qed
qed

lemma monitorStep_bound:
  assumes "workersNum (fst s) \<le> maxParallelWorkers"
  shows "workersNum (fst (monitorStep f s e)) \<le> maxParallelWorkers"
proof (cases s)
  case (Pair p mo)
  show ?thesis
  proof (cases e)
    case (Tick b)
    show ?thesis
    proof (cases mo)
      case None
      with Pair Tick assms show ?thesis by simp
    next
      case (Some m)
      from assms Pair have "workersNum (p\<lparr>sentBytes := b\<rparr>) \<le> maxParallelWorkers" by simp
      then have "workersNum (fst (monitorTick f (p\<lparr>sentBytes := b\<rparr>) m)) \<le> maxParallelWorkers"
        by (rule monitorTick_bound)
      with Pair Tick Some show ?thesis by simp
    qed
  next
    case Stop
    with Pair assms show ?thesis by simp
  qed
qed

lemma monitorRun_hd: "hd (monitorRun f s es) = s"
  by (cases es) simp_all

lemma monitorRun_ge:
  "\<forall>x \<in> set (monitorRun f s es). workersNum (fst s) \<le> workersNum (fst x)"
proof (induction es arbitrary: s)
  case Nil show ?case by simp
next
  case (Cons e es)
  have le: "workersNum (fst s) \<le> workersNum (fst (monitorStep f s e))" by (rule monitorStep_mono)
  have "\<forall>x \<in> set (monitorRun f (monitorStep f s e) es).
          workersNum (fst (monitorStep f s e)) \<le> workersNum (fst x)"
    by (rule Cons.IH)
  with le show ?case by auto
qed

lemma monitorRun_sorted: "sorted (map (workersNum \<circ> fst) (monitorRun f s es))"
proof (induction es arbitrary: s)
  case Nil show ?case by simp
next
  case (Cons e es)
  have "\<forall>x \<in> set (monitorRun f (monitorStep f s e) es). workersNum (fst s) \<le> workersNum (fst x)"
    using monitorRun_ge [of f s "e # es"] by simp
  with Cons.IH [of "monitorStep f s e"] show ?case by simp
qed

lemma monitorRun_bound:
  "workersNum (fst s) \<le> maxParallelWorkers \<Longrightarrow>
   \<forall>x \<in> set (monitorRun f s es). workersNum (fst x) \<le> maxParallelWorkers"
proof (induction es arbitrary: s)
  case Nil then show ?case by simp
next
  case (Cons e es)
  from Cons.prems have "workersNum (fst (monitorStep f s e)) \<le> maxParallelWorkers"
    by (rule monitorStep_bound)
  then have "\<forall>x \<in> set (monitorRun f (monitorStep f s e) es). workersNum (fst x) \<le> maxParallelWorkers"
    by (rule Cons.IH)
  with Cons.prems show ?case by simp
qed

lemma estimate_eq: "estimateNeededMemoryForUpload u = cappedUploadEstimate u"
proof -
  have "(3 \<le> unat u div 134217728) = (402653184 \<le> unat u)"
    by (simp add: less_eq_div_iff_mult_less_eq)
  then show ?thesis
    unfolding estimateNeededMemoryForUpload_def cappedUploadEstimate_def Let_def partSize_def
    by (simp add: word_le_nat_alt unat_div)
qed


lemma cappedUploadEstimate_le: "unat (cappedUploadEstimate u) \<le> 402653184"
  by (simp add: cappedUploadEstimate_def word_le_nat_alt)

lemma estimate_sum_exact:
  assumes "unat alloc < 2 ^ 64 - 402653184"
  shows "unat (cappedUploadEstimate u + alloc) = unat (cappedUploadEstimate u) + unat alloc"
proof -
  from cappedUploadEstimate_le [of u] assms
  have "unat (cappedUploadEstimate u) + unat alloc < 2 ^ 64" by simp
  then show ?thesis by (simp add: unat_word_ariths)
qed

lemma addWorker_count:
  assumes "workersNum q \<le> maxParallelWorkers"
  shows "unat (workersNum (addWorker q)) = min 128 (unat (workersNum q) + 1)"
proof (cases "workersNum q \<ge> maxParallelWorkers")
  case True
  with assms have "workersNum q = 128" by (simp add: maxParallelWorkers_def)
  then show ?thesis by (simp add: addWorker_def maxParallelWorkers_def)
next
  case False
  then have lt: "unat (workersNum q) < 128" by (simp add: maxParallelWorkers_def word_le_nat_alt)
  then have "unat (workersNum q + 1) = unat (workersNum q) + 1"
    by (simp add: unat_word_ariths)
  with False lt show ?thesis by (simp add: addWorker_def)
qed

lemma funpow_addWorker_count:
  assumes "workersNum p \<le> maxParallelWorkers"
  shows "unat (workersNum ((addWorker ^^ n) p)) = min 128 (unat (workersNum p) + n)"
proof (induction n)
  case 0
  from assms show ?case by (simp add: maxParallelWorkers_def word_le_nat_alt)
next
  case (Suc n)
  have "workersNum ((addWorker ^^ n) p) \<le> maxParallelWorkers"
    using assms by (rule funpow_addWorker_bound)
  then have "unat (workersNum (addWorker ((addWorker ^^ n) p))) =
             min 128 (unat (workersNum ((addWorker ^^ n) p)) + 1)"
    by (rule addWorker_count)
  with Suc show ?case by simp
qed

lemma addWorkers_count:
  "workersNum p \<le> maxParallelWorkers \<Longrightarrow>
   unat (workersNum (addWorkers f p)) = min 128 (unat (workersNum p) + nat f)"
  by (simp add: addWorkers_def funpow_addWorker_count)

lemma monitorRun_stopped:
  "\<forall>x \<in> set (monitorRun f (p, None) es). snd x = None \<and> workersNum (fst x) = workersNum p"
proof (induction es arbitrary: p)
  case Nil show ?case by simp
next
  case (Cons e es)
  show ?case
  proof (cases e)
    case (Tick b)
    with Cons.IH [of "p\<lparr>sentBytes := b\<rparr>"] show ?thesis by simp
  next
    case Stop
    with Cons.IH [of p] show ?thesis by simp
  qed
qed

subsection \<open>Worker count\<close>

text \<open>
  Claim C8. Throughout one run of the manager the worker count never decreases and
  never exceeds 128: for every number of processing units, every batch size and every
  sequence of monitor events, the worker counts of the managers of the run (the struct
  literal, the manager after the startup loop, the manager after each event) are in
  ascending order and each is at most \<open>maxParallelWorkers\<close>. Within the startup loop and
  within a batch every single call is covered by \<open>addWorker_mono\<close> and
  \<open>addWorker_bound\<close>. \<open>addWorker\<close> is the only writer of the count, and its calls are
  sequential: the startup loop ends before the monitor goroutine is started. That
  queueing and the workers leave the count alone is \<open>workersNum_runEvents\<close> below.
\<close>

theorem workersNum_monotone_bounded:
  "sorted (map workersNum (managerRun budget memStats numCPU f es :: 'f ParallelManager list)) \<and>
   (\<forall>p \<in> set (managerRun budget memStats numCPU f es :: 'f ParallelManager list).
      workersNum p \<le> maxParallelWorkers)"
proof -
  let ?fresh = "freshManager budget memStats :: 'f ParallelManager"
  let ?p0 = "newParallelManager budget memStats numCPU :: 'f ParallelManager"
  let ?run = "monitorRun f (?p0, Some monitorInit) es"
  have fresh0: "workersNum ?fresh = 0" by (simp add: freshManager_def)
  have p0_bound: "workersNum ?p0 \<le> maxParallelWorkers"
    unfolding newParallelManager_def by (rule addWorkers_bound) (simp add: fresh0)
  have srt: "sorted (map (workersNum \<circ> fst) ?run)" by (rule monitorRun_sorted)
  have bnd: "\<forall>x \<in> set ?run. workersNum (fst x) \<le> maxParallelWorkers"
    using p0_bound by (intro monitorRun_bound) simp
  have "sorted (workersNum ?fresh # map (workersNum \<circ> fst) ?run)"
    using srt by (simp add: fresh0)
  then have 1: "sorted (map workersNum (managerRun budget memStats numCPU f es :: 'f ParallelManager list))"
    by (simp add: managerRun_def comp_def)
  have 2: "\<forall>p \<in> set (managerRun budget memStats numCPU f es :: 'f ParallelManager list). workersNum p \<le> maxParallelWorkers"
    using bnd by (auto simp: managerRun_def fresh0)
  from 1 2 show ?thesis ..
qed

theorem workersNum_monotone_bounded_witness:
  "map workersNum (managerRun (\<lambda>a. a) None 2 3 [Tick 100, Tick 200, Stop] :: unit ParallelManager list)
     = [0, 2, 5, 8, 8] \<and>
   sorted (map workersNum (managerRun (\<lambda>a. a) None 2 3 [Tick 100, Tick 200, Stop] :: unit ParallelManager list)) \<and>
   workersNum (last (managerRun (\<lambda>a. a) None 2 3 [Tick 100, Tick 200, Stop] :: unit ParallelManager list))
     \<le> maxParallelWorkers"
proof -
  let ?run = "managerRun (\<lambda>a. a) None 2 3 [Tick 100, Tick 200, Stop] :: unit ParallelManager list"
  have ev: "map workersNum ?run = [0, 2, 5, 8, 8]"
    by code_simp
  have inst: "sorted (map workersNum ?run) \<and> (\<forall>p \<in> set ?run. workersNum p \<le> maxParallelWorkers)"
    by (rule workersNum_monotone_bounded)
  have "?run \<noteq> []" by (simp add: managerRun_def)
  then have "last ?run \<in> set ?run" by (rule last_in_set)
  with inst have "workersNum (last ?run) \<le> maxParallelWorkers" by blast
  with ev inst show ?thesis by blast
qed

subsection \<open>Memory admission\<close>

text \<open>
  Claim C7. A task with a positive upload size, queued on a manager with a non-zero
  memory budget, is promoted to the barrier class whatever its class was, when the
  estimated memory of the upload (the full size, capped at three 128 MiB parts once the
  size reaches three parts) plus the allocated memory is not strictly below the budget:
  \<open>doQueueTask\<close> sets the barrier flag, takes the exclusive hold and queues the task
  with the flag set. The sum and the comparison are the unsigned 64-bit ones of the
  source; the sum is the exact one as long as the allocated memory is below
  \<open>2 ^ 64 - 402653184\<close> bytes (\<open>estimate_sum_exact\<close>).
\<close>

theorem over_budget_upload_is_barrier:
  assumes "0 <s uploadSize t" and "maxMem p \<noteq> 0"
    and "\<not> cappedUploadEstimate (uploadSize t) + alloc < maxMem p"
  shows "doQueueTask_class p alloc t = Done (t\<lparr>barrier := True\<rparr>) \<and>
         doQueueTask p alloc t =
           (case Lock (barrierSync p) of
              None \<Rightarrow> Blocked
            | Some m \<Rightarrow> Done (p\<lparr>barrierSync := m, queueCh := queueCh p @ [t\<lparr>barrier := True\<rparr>]\<rparr>))"
proof -
  from assms(1) have nz: "uploadSize t \<noteq> 0" by auto
  have "enoughMemForUpload p alloc (uploadSize t) = Done False"
    using nz assms(2,3) by (simp add: enoughMemForUpload_def estimate_eq)
  then have cls: "doQueueTask_class p alloc t = Done (t\<lparr>barrier := True\<rparr>)"
    by (simp add: doQueueTask_class_def)
  then show ?thesis by (simp add: doQueueTask_def)
qed

theorem over_budget_upload_is_barrier_witness:
  "0 <s uploadSize \<lparr>fn = (), barrier = False, uploadSize = 1073741824\<rparr> \<and>
   maxMem (exampleManager 4 0 402653284) \<noteq> 0 \<and>
   \<not> cappedUploadEstimate 1073741824 + 100 < maxMem (exampleManager 4 0 402653284) \<and>
   doQueueTask_class (exampleManager 4 0 402653284) 100 \<lparr>fn = (), barrier = False, uploadSize = 1073741824\<rparr>
     = Done \<lparr>fn = (), barrier = True, uploadSize = 1073741824\<rparr> \<and>
   doQueueTask (exampleManager 4 0 402653284) 100 \<lparr>fn = (), barrier = False, uploadSize = 1073741824\<rparr>
     = Done ((exampleManager 4 0 402653284)
              \<lparr>barrierSync := \<lparr>readerCount = 0, writerHeld = True\<rparr>,
               queueCh := [\<lparr>fn = (), barrier = True, uploadSize = 1073741824\<rparr>]\<rparr>)"
proof -
  let ?t = "\<lparr>fn = (), barrier = False, uploadSize = 1073741824\<rparr> :: unit task"
  let ?p = "exampleManager 4 0 402653284"
  have h1: "0 <s uploadSize ?t" by (simp add: word_sless_alt)
  have h2: "maxMem ?p \<noteq> 0" by (simp add: exampleManager_def)
  have h3: "\<not> cappedUploadEstimate (uploadSize ?t) + 100 < maxMem ?p"
    by (simp add: exampleManager_def cappedUploadEstimate_def)
  from over_budget_upload_is_barrier [OF h1 h2 h3] h1 h2 h3 show ?thesis
    by (simp add: exampleManager_def Lock_def)
qed

text \<open>
  Claim C10. When the upload size is 0 or the memory budget is 0, and the budget is 0
  whenever the memory statistics could not be read at manager start,
  \<open>enoughMemForUpload\<close> returns true and the task keeps the class it was queued with:
  \<open>doQueueTask\<close> takes the exclusive hold if the barrier flag was set and the shared
  one if not, and queues the task unchanged.
\<close>

theorem small_or_unbudgeted_upload_keeps_class:
  "maxMem (newParallelManager budget None numCPU :: 'f ParallelManager) = 0 \<and>
   (uploadSize t = 0 \<or> maxMem (p :: 'f ParallelManager) = 0 \<longrightarrow>
      enoughMemForUpload p alloc (uploadSize t) = Done True \<and>
      doQueueTask_class p alloc t = Done t \<and>
      doQueueTask p alloc t =
        (case (if barrier t then Lock (barrierSync p) else RLock (barrierSync p)) of
           None \<Rightarrow> Blocked
         | Some m \<Rightarrow> Done (p\<lparr>barrierSync := m, queueCh := queueCh p @ [t]\<rparr>)))"
proof -
  have budget0: "maxMem (newParallelManager budget None numCPU :: 'f ParallelManager) = 0"
    by (simp add: newParallelManager_def freshManager_def)
  have keep: "enoughMemForUpload p alloc (uploadSize t) = Done True \<and>
      doQueueTask_class p alloc t = Done t \<and>
      doQueueTask p alloc t =
        (case (if barrier t then Lock (barrierSync p) else RLock (barrierSync p)) of
           None \<Rightarrow> Blocked
         | Some m \<Rightarrow> Done (p\<lparr>barrierSync := m, queueCh := queueCh p @ [t]\<rparr>))"
    if "uploadSize t = 0 \<or> maxMem p = 0"
  proof -
    from that have enough: "enoughMemForUpload p alloc (uploadSize t) = Done True"
      by (auto simp: enoughMemForUpload_def)
    then have cls: "doQueueTask_class p alloc t = Done t"
      by (simp add: doQueueTask_class_def)
    then have "doQueueTask p alloc t =
        (case (if barrier t then Lock (barrierSync p) else RLock (barrierSync p)) of
           None \<Rightarrow> Blocked
         | Some m \<Rightarrow> Done (p\<lparr>barrierSync := m, queueCh := queueCh p @ [t]\<rparr>))"
      by (simp add: doQueueTask_def)
    with enough cls show ?thesis by blast
  qed
  from budget0 keep show ?thesis by blast
qed

theorem small_or_unbudgeted_upload_keeps_class_witness:
  "maxMem (newParallelManager (\<lambda>a. a) None 4 :: unit ParallelManager) = 0 \<and>
   (uploadSize \<lparr>fn = (), barrier = False, uploadSize = 0\<rparr> = 0 \<or> maxMem (exampleManager 4 0 1000) = 0) \<and>
   enoughMemForUpload (exampleManager 4 0 1000) 5000 0 = Done True \<and>
   doQueueTask_class (exampleManager 4 0 1000) 5000 \<lparr>fn = (), barrier = False, uploadSize = 0\<rparr>
     = Done \<lparr>fn = (), barrier = False, uploadSize = 0\<rparr> \<and>
   (uploadSize \<lparr>fn = (), barrier = False, uploadSize = 7000\<rparr> = 0 \<or> maxMem (exampleManager 4 0 0) = 0) \<and>
   enoughMemForUpload (exampleManager 4 0 0) 5000 7000 = Done True \<and>
   doQueueTask_class (exampleManager 4 0 0) 5000 \<lparr>fn = (), barrier = False, uploadSize = 7000\<rparr>
     = Done \<lparr>fn = (), barrier = False, uploadSize = 7000\<rparr> \<and>
   doQueueTask (exampleManager 4 0 0) 5000 \<lparr>fn = (), barrier = False, uploadSize = 7000\<rparr>
     = Done ((exampleManager 4 0 0)
              \<lparr>barrierSync := \<lparr>readerCount = 1, writerHeld = False\<rparr>,
               queueCh := [\<lparr>fn = (), barrier = False, uploadSize = 7000\<rparr>]\<rparr>)"
  using small_or_unbudgeted_upload_keeps_class
          [where t = "\<lparr>fn = (), barrier = False, uploadSize = 0\<rparr>" and p = "exampleManager 4 0 1000"
             and alloc = 5000 and budget = "\<lambda>a. a" and numCPU = 4]
        small_or_unbudgeted_upload_keeps_class
          [where t = "\<lparr>fn = (), barrier = False, uploadSize = 7000\<rparr>" and p = "exampleManager 4 0 0"
             and alloc = 5000 and budget = "\<lambda>a. a" and numCPU = 4]
  by (simp add: exampleManager_def RLock_def)

subsection \<open>The throughput monitor\<close>

text \<open>
  Claim C9, as the source has it. The ticker of the monitor has a period of 4 seconds.
  On a tick the monitor computes the delta of sent bytes since the previous sample. If
  the delta is strictly above the best delta so far, the delta becomes the best one,
  the stall counter is reset and \<open>addWorker\<close> is called once per processing unit. Otherwise (the delta is lower than or equal to the best one)
  the stall counter is incremented; when it then exceeds 2 the monitor returns without
  calling \<open>addWorker\<close>, and else it still calls \<open>addWorker\<close> once per processing unit.
  Once the monitor has returned, no later event changes the worker count. A batch of
  \<open>f\<close> calls raises the worker count by \<open>f\<close>, up to the maximum of 128.
\<close>

theorem monitorTick_cases:
  "sint monitorPeriod = 4 * 1000000000 \<and>
   (maxBandwidth m <s sentBytes p - prevSentBytes m \<longrightarrow>
      monitorTick f p m =
        (addWorkers f p,
         Some \<lparr>prevSentBytes = sentBytes p, maxBandwidth = sentBytes p - prevSentBytes m, retry = 0\<rparr>)) \<and>
   (sentBytes p - prevSentBytes m \<le>s maxBandwidth m \<and> retry m < 2 \<longrightarrow>
      monitorTick f p m =
        (addWorkers f p,
         Some \<lparr>prevSentBytes = sentBytes p, maxBandwidth = maxBandwidth m, retry = retry m + 1\<rparr>)) \<and>
   (sentBytes p - prevSentBytes m \<le>s maxBandwidth m \<and> 2 \<le> retry m \<longrightarrow>
      monitorTick f p m = (p, None)) \<and>
   (\<forall>x \<in> set (monitorRun f (p, None) es). snd x = None \<and> workersNum (fst x) = workersNum p) \<and>
   (workersNum p \<le> maxParallelWorkers \<longrightarrow>
      unat (workersNum (addWorkers f p)) = min 128 (unat (workersNum p) + nat f))"
proof -
  have a: "maxBandwidth m <s sentBytes p - prevSentBytes m \<longrightarrow>
      monitorTick f p m =
        (addWorkers f p,
         Some \<lparr>prevSentBytes = sentBytes p, maxBandwidth = sentBytes p - prevSentBytes m, retry = 0\<rparr>)"
    by (simp add: monitorTick_def Let_def word_sless_alt word_sle_eq)
  have b: "sentBytes p - prevSentBytes m \<le>s maxBandwidth m \<and> retry m < 2 \<longrightarrow>
      monitorTick f p m =
        (addWorkers f p,
         Some \<lparr>prevSentBytes = sentBytes p, maxBandwidth = maxBandwidth m, retry = retry m + 1\<rparr>)"
    by (simp add: monitorTick_def Let_def)
  have c: "sentBytes p - prevSentBytes m \<le>s maxBandwidth m \<and> 2 \<le> retry m \<longrightarrow>
      monitorTick f p m = (p, None)"
    by (simp add: monitorTick_def Let_def)
  have d: "\<forall>x \<in> set (monitorRun f (p, None) es). snd x = None \<and> workersNum (fst x) = workersNum p"
    by (rule monitorRun_stopped)
  have e: "workersNum p \<le> maxParallelWorkers \<longrightarrow>
      unat (workersNum (addWorkers f p)) = min 128 (unat (workersNum p) + nat f)"
    by (simp add: addWorkers_count)
  have period: "sint monitorPeriod = 4 * 1000000000"
    by (simp add: monitorPeriod_def Second_def)
  from period a b c d e show ?thesis by blast
qed

theorem monitorTick_cases_witness:
  "monitorTick 4 (exampleManager 4 100 0) \<lparr>prevSentBytes = 0, maxBandwidth = 0, retry = 2\<rparr>
     = (exampleManager 8 100 0, Some \<lparr>prevSentBytes = 100, maxBandwidth = 100, retry = 0\<rparr>) \<and>
   monitorTick 4 (exampleManager 126 150 0) \<lparr>prevSentBytes = 100, maxBandwidth = 100, retry = 1\<rparr>
     = (exampleManager 128 150 0, Some \<lparr>prevSentBytes = 150, maxBandwidth = 100, retry = 2\<rparr>) \<and>
   monitorTick 4 (exampleManager 8 150 0) \<lparr>prevSentBytes = 150, maxBandwidth = 100, retry = 2\<rparr>
     = (exampleManager 8 150 0, None) \<and>
   snd (last (monitorRun 4 (exampleManager 8 150 0, None) [Tick 1000, Stop, Tick 5000])) = None \<and>
   workersNum (fst (last (monitorRun 4 (exampleManager 8 150 0, None) [Tick 1000, Stop, Tick 5000]))) = 8"
proof -
  let ?m1 = "\<lparr>prevSentBytes = 0, maxBandwidth = 0, retry = 2\<rparr>"
  let ?m2 = "\<lparr>prevSentBytes = 100, maxBandwidth = 100, retry = 1\<rparr>"
  let ?m3 = "\<lparr>prevSentBytes = 150, maxBandwidth = 100, retry = 2\<rparr>"
  have h1: "maxBandwidth ?m1 <s sentBytes (exampleManager 4 100 0) - prevSentBytes ?m1"
    by (simp add: exampleManager_def word_sless_alt)
  have h2: "sentBytes (exampleManager 126 150 0) - prevSentBytes ?m2 \<le>s maxBandwidth ?m2 \<and> retry ?m2 < 2"
    by (simp add: exampleManager_def word_sle_eq)
  have h3: "sentBytes (exampleManager 8 150 0) - prevSentBytes ?m3 \<le>s maxBandwidth ?m3 \<and> 2 \<le> retry ?m3"
    by (simp add: exampleManager_def word_sle_eq)
  have b1: "workersNum (exampleManager 4 100 0) \<le> maxParallelWorkers"
    by (simp add: exampleManager_def maxParallelWorkers_def)
  have b2: "workersNum (exampleManager 126 150 0) \<le> maxParallelWorkers"
    by (simp add: exampleManager_def maxParallelWorkers_def)
  have w1: "addWorkers 4 (exampleManager 4 100 0) = exampleManager 8 100 0"
    by code_simp
  have w2: "addWorkers 4 (exampleManager 126 150 0) = exampleManager 128 150 0"
    by code_simp
  from h1 monitorTick_cases [where m = ?m1 and p = "exampleManager 4 100 0" and f = 4 and es = "[]"]
  have c1: "monitorTick 4 (exampleManager 4 100 0) ?m1
           = (addWorkers 4 (exampleManager 4 100 0),
              Some \<lparr>prevSentBytes = 100, maxBandwidth = 100, retry = 0\<rparr>)"
    by (simp add: exampleManager_def)
  from h2 monitorTick_cases [where m = ?m2 and p = "exampleManager 126 150 0" and f = 4 and es = "[]"]
  have c2: "monitorTick 4 (exampleManager 126 150 0) ?m2
           = (addWorkers 4 (exampleManager 126 150 0),
              Some \<lparr>prevSentBytes = 150, maxBandwidth = 100, retry = 2\<rparr>)"
    by (simp add: exampleManager_def)
  from h3 monitorTick_cases [where m = ?m3 and p = "exampleManager 8 150 0" and f = 4
                               and es = "[Tick 1000, Stop, Tick 5000]"]
  have c3: "monitorTick 4 (exampleManager 8 150 0) ?m3 = (exampleManager 8 150 0, None)"
    and c4: "\<forall>x \<in> set (monitorRun 4 (exampleManager 8 150 0, None) [Tick 1000, Stop, Tick 5000]).
               snd x = None \<and> workersNum (fst x) = 8"
    by (simp_all add: exampleManager_def)
  have "last (monitorRun 4 (exampleManager 8 150 0, None) [Tick 1000, Stop, Tick 5000])
          \<in> set (monitorRun 4 (exampleManager 8 150 0, None) [Tick 1000, Stop, Tick 5000])"
    by (rule last_in_set) simp
  with c4 have c5:
    "snd (last (monitorRun 4 (exampleManager 8 150 0, None) [Tick 1000, Stop, Tick 5000])) = None \<and>
     workersNum (fst (last (monitorRun 4 (exampleManager 8 150 0, None) [Tick 1000, Stop, Tick 5000]))) = 8"
    by blast
  from c1 c2 c3 c5 w1 w2 show ?thesis by simp
qed

text \<open>
  The claim C9 as it was stated fails twice on the source. With a delta of 5 below the
  best delta of 10, the tick still spawns a batch: the worker count goes from 4 to 8.
  With a delta of 10 equal to the best delta of 10, the stall counter is not reset: it
  goes from 0 to 1.
\<close>

theorem monitorTick_counterexample:
  "monitorTick 4
     (\<lparr>sentBytes = 5, barrierSync = \<lparr>readerCount = 0, writerHeld = False\<rparr>,
       workersNum = 4, queueCh = [], maxMem = 0\<rparr> :: unit ParallelManager)
     \<lparr>prevSentBytes = 0, maxBandwidth = 10, retry = 0\<rparr>
   = (\<lparr>sentBytes = 5, barrierSync = \<lparr>readerCount = 0, writerHeld = False\<rparr>,
       workersNum = 8, queueCh = [], maxMem = 0\<rparr>,
      Some \<lparr>prevSentBytes = 5, maxBandwidth = 10, retry = 1\<rparr>) \<and>
   monitorTick 4
     (\<lparr>sentBytes = 10, barrierSync = \<lparr>readerCount = 0, writerHeld = False\<rparr>,
       workersNum = 4, queueCh = [], maxMem = 0\<rparr> :: unit ParallelManager)
     \<lparr>prevSentBytes = 0, maxBandwidth = 10, retry = 0\<rparr>
   = (\<lparr>sentBytes = 10, barrierSync = \<lparr>readerCount = 0, writerHeld = False\<rparr>,
       workersNum = 8, queueCh = [], maxMem = 0\<rparr>,
      Some \<lparr>prevSentBytes = 10, maxBandwidth = 10, retry = 1\<rparr>)"
  by code_simp

section \<open>Properties of the mirror orchestrator\<close>

text \<open>
  The theorems are about the messages that the loop of \<open>deltaSourceTarget\<close> sends for
  one difference message, in both files. A difference message is classified by its
  field \<open>Diff\<close> when its field \<open>Error\<close> is nil; a message with an error is a listing
  error whatever its \<open>Diff\<close> is. The roots \<open>su\<close> and \<open>tu\<close> are the expanded source
  and target URLs and \<open>sa\<close> and \<open>ta\<close> their aliases.
\<close>

lemma URLs0_copy:
  "copyURLs env sa su ta tu m =
     \<lparr>SourceAlias = sa, SourceContent = firstContent m, TargetAlias = ta,
      TargetContent = Some \<lparr>URL = newClientURL env (urlJoinPath env tu (TrimPrefix (FirstURL m) su))\<rparr>,
      Error = None, ErrorCond = None\<rparr>"
  by (simp add: copyURLs_def URLs0_def Let_def)

text \<open>
  Scenarios A and B of the specification on the whole function: the source has \<open>a\<close> and
  \<open>b\<close>, the target has \<open>b\<close> and \<open>c\<close>. With removal allowed the messages are the copy
  of \<open>a\<close> and the removal of \<open>c\<close>; without it, the copy of \<open>a\<close> alone.
\<close>

lemma scenario_A:
  "deltaSourceTarget
     (exampleEnv [exampleDiff differInFirst ''src/a'' [], exampleDiff differInNone ''src/b'' ''tgt/b'',
                  exampleDiff differInSecond [] ''tgt/c''])
     ''src'' ''tgt'' (exampleOptions False True False True [])
   = [\<lparr>SourceAlias = ''play'', SourceContent = Some \<lparr>URL = ''src/a''\<rparr>,
       TargetAlias = ''play'', TargetContent = Some \<lparr>URL = ''tgt/a''\<rparr>,
       Error = None, ErrorCond = None\<rparr>,
      \<lparr>SourceAlias = [], SourceContent = None,
       TargetAlias = ''play'', TargetContent = Some \<lparr>URL = ''tgt/c''\<rparr>,
       Error = None, ErrorCond = None\<rparr>]"
  by code_simp

lemma scenario_B:
  "deltaSourceTarget
     (exampleEnv [exampleDiff differInFirst ''src/a'' [], exampleDiff differInNone ''src/b'' ''tgt/b'',
                  exampleDiff differInSecond [] ''tgt/c''])
     ''src'' ''tgt'' (exampleOptions False True False False [])
   = [\<lparr>SourceAlias = ''play'', SourceContent = Some \<lparr>URL = ''src/a''\<rparr>,
       TargetAlias = ''play'', TargetContent = Some \<lparr>URL = ''tgt/a''\<rparr>,
       Error = None, ErrorCond = None\<rparr>]"
  by code_simp

text \<open>
  Claim C2, as the source has it. For a difference message classified as a difference
  in size, in metadata or in source modification time that no exclude pattern drops,
  with the overwrite flag and the dry-run flag unset: src/unnamed/part\_002 sends
  exactly one message, the error "overwrite not allowed" for the second URL, when the
  active-active flag is unset as well; src/cmd/mirror-url.go, which has no such flag,
  sends exactly that error. No copy is sent.
\<close>

theorem mismatch_without_overwrite_is_error:
  assumes "Error_diff m = None"
    and "Diff m = differInSize \<or> Diff m = differInMetadata \<or> Diff m = differInAASourceMTime"
    and "\<not> isOverwrite opts" and "\<not> isFake opts"
    and "\<not> matchExcludeOptions (wildcardMatch env) (excludeOptions opts) (TrimPrefix (FirstURL m) su)"
    and "\<not> matchExcludeOptions (wildcardMatch env) (excludeOptions opts) (TrimPrefix (SecondURL m) tu)"
  shows "(\<not> activeActive opts \<longrightarrow>
            deltaSourceTarget_event env opts sa su ta tu m =
              [\<lparr>SourceAlias = [], SourceContent = None, TargetAlias = [], TargetContent = None,
                Error = Some (errOverWriteNotAllowed (SecondURL m)), ErrorCond = Some (Diff m)\<rparr>]) \<and>
         deltaSourceTarget_event_mirror_url env False False rm (excludeOptions opts) sa su ta tu m =
           [\<lparr>SourceAlias = [], SourceContent = None, TargetAlias = [], TargetContent = None,
             Error = Some (errOverWriteNotAllowed (SecondURL m)), ErrorCond = None\<rparr>]"
  using assms
  by (auto simp add: deltaSourceTarget_event_def deltaSourceTarget_event_mirror_url_def Let_def URLs0_def)

theorem mismatch_without_overwrite_is_error_witness:
  "Error_diff (exampleDiff differInSize ''src/a'' ''tgt/a'') = None \<and>
   Diff (exampleDiff differInSize ''src/a'' ''tgt/a'') = differInSize \<and>
   \<not> isOverwrite (exampleOptions False False False True []) \<and>
   \<not> isFake (exampleOptions False False False True []) \<and>
   \<not> activeActive (exampleOptions False False False True []) \<and>
   deltaSourceTarget_event (exampleEnv []) (exampleOptions False False False True [])
     ''play'' ''src/'' ''play'' ''tgt/'' (exampleDiff differInSize ''src/a'' ''tgt/a'')
   = [\<lparr>SourceAlias = [], SourceContent = None, TargetAlias = [], TargetContent = None,
       Error = Some (errOverWriteNotAllowed ''tgt/a''), ErrorCond = Some differInSize\<rparr>] \<and>
   deltaSourceTarget_event_mirror_url (exampleEnv []) False False True []
     ''play'' ''src/'' ''play'' ''tgt/'' (exampleDiff differInSize ''src/a'' ''tgt/a'')
   = [\<lparr>SourceAlias = [], SourceContent = None, TargetAlias = [], TargetContent = None,
       Error = Some (errOverWriteNotAllowed ''tgt/a''), ErrorCond = None\<rparr>]"
proof -
  let ?m = "exampleDiff differInSize ''src/a'' ''tgt/a''"
  let ?o = "exampleOptions False False False True []"
  let ?e = "exampleEnv []"
  have h1: "Error_diff ?m = None" and d: "Diff ?m = differInSize"
    and s: "SecondURL ?m = ''tgt/a''"
    by (simp_all add: exampleDiff_def)
  from d have h2: "Diff ?m = differInSize \<or> Diff ?m = differInMetadata \<or> Diff ?m = differInAASourceMTime"
    by (rule disjI1)
  have h3: "\<not> isOverwrite ?o" and h4: "\<not> isFake ?o" and h5: "\<not> activeActive ?o"
    and e1: "excludeOptions ?o = []"
    by (simp_all add: exampleOptions_def)
  have h6: "\<not> matchExcludeOptions (wildcardMatch ?e) (excludeOptions ?o) (TrimPrefix (FirstURL ?m) ''src/'')"
    by (simp add: e1)
  have h7: "\<not> matchExcludeOptions (wildcardMatch ?e) (excludeOptions ?o) (TrimPrefix (SecondURL ?m) ''tgt/'')"
    by (simp add: e1)
  from mismatch_without_overwrite_is_error
         [where m = ?m and opts = ?o and env = ?e and sa = "''play''" and su = "''src/''"
            and ta = "''play''" and tu = "''tgt/''" and rm = True,
          OF h1 h2 h3 h4 h6 h7] h5
  have "deltaSourceTarget_event ?e ?o ''play'' ''src/'' ''play'' ''tgt/'' ?m
        = [\<lparr>SourceAlias = [], SourceContent = None, TargetAlias = [], TargetContent = None,
            Error = Some (errOverWriteNotAllowed ''tgt/a''), ErrorCond = Some differInSize\<rparr>] \<and>
        deltaSourceTarget_event_mirror_url ?e False False True []
          ''play'' ''src/'' ''play'' ''tgt/'' ?m
        = [\<lparr>SourceAlias = [], SourceContent = None, TargetAlias = [], TargetContent = None,
            Error = Some (errOverWriteNotAllowed ''tgt/a''), ErrorCond = None\<rparr>]"
    unfolding e1 d s by blast
  with h1 d h3 h4 h5 show ?thesis by blast
qed

text \<open>
  The claim C2 as it was stated fails on the source. In src/unnamed/part\_002, with
  overwrite and dry-run unset and active-active set, a difference in size yields a copy
  and no error. In both files, with all three unset, a difference in size whose suffix
  matches an exclude pattern yields no message at all, so no error either.
\<close>

theorem mismatch_without_overwrite_counterexample:
  "deltaSourceTarget_event (exampleEnv []) (exampleOptions False False True False [])
     ''play'' ''src/'' ''play'' ''tgt/'' (exampleDiff differInSize ''src/a.txt'' ''tgt/a.txt'')
   = [\<lparr>SourceAlias = ''play'', SourceContent = Some \<lparr>URL = ''src/a.txt''\<rparr>,
       TargetAlias = ''play'', TargetContent = Some \<lparr>URL = ''tgt/a.txt''\<rparr>,
       Error = None, ErrorCond = None\<rparr>] \<and>
   deltaSourceTarget_event (exampleEnv []) (exampleOptions False False False False [''a.txt''])
     ''play'' ''src/'' ''play'' ''tgt/'' (exampleDiff differInSize ''src/a.txt'' ''tgt/a.txt'')
   = [] \<and>
   deltaSourceTarget_event_mirror_url (exampleEnv []) False False False [''a.txt'']
     ''play'' ''src/'' ''play'' ''tgt/'' (exampleDiff differInSize ''src/a.txt'' ''tgt/a.txt'')
   = []"
  by code_simp

text \<open>
  Claim C3. For a difference message classified as only in the target, with the remove
  flag and the dry-run flag unset, no message is sent: no removal and no error.
\<close>

theorem only_in_target_dropped_without_remove:
  assumes "Error_diff m = None" and "Diff m = differInSecond"
    and "\<not> isRemove opts" and "\<not> isFake opts"
  shows "deltaSourceTarget_event env opts sa su ta tu m = [] \<and>
         deltaSourceTarget_event_mirror_url env False ov False excl sa su ta tu m = []"
  using assms
  by (simp add: deltaSourceTarget_event_def deltaSourceTarget_event_mirror_url_def Let_def)

theorem only_in_target_dropped_without_remove_witness:
  "Error_diff (exampleDiff differInSecond [] ''tgt/c'') = None \<and>
   Diff (exampleDiff differInSecond [] ''tgt/c'') = differInSecond \<and>
   \<not> isRemove (exampleOptions False True False False []) \<and>
   \<not> isFake (exampleOptions False True False False []) \<and>
   deltaSourceTarget_event (exampleEnv []) (exampleOptions False True False False [])
     ''play'' ''src/'' ''play'' ''tgt/'' (exampleDiff differInSecond [] ''tgt/c'') = [] \<and>
   deltaSourceTarget_event_mirror_url (exampleEnv []) False True False []
     ''play'' ''src/'' ''play'' ''tgt/'' (exampleDiff differInSecond [] ''tgt/c'') = []"
proof -
  let ?m = "exampleDiff differInSecond [] ''tgt/c''"
  let ?o = "exampleOptions False True False False []"
  have h1: "Error_diff ?m = None" and h2: "Diff ?m = differInSecond"
    by (simp_all add: exampleDiff_def)
  have h3: "\<not> isRemove ?o" and h4: "\<not> isFake ?o"
    by (simp_all add: exampleOptions_def)
  from only_in_target_dropped_without_remove
         [where m = ?m and opts = ?o and env = "exampleEnv []" and sa = "''play''"
            and su = "''src/''" and ta = "''play''" and tu = "''tgt/''" and ov = True
            and excl = "[]", OF h1 h2 h3 h4]
       h1 h2 h3 h4
  show ?thesis by simp
qed

text \<open>
  Claim C4. A difference message classified as only in the source, that no exclude
  pattern drops, yields exactly one message whatever the overwrite, remove and other
  flags are: the copy of the first content to the target root joined with the suffix of
  the first URL under the source root.
\<close>

theorem only_in_source_copied:
  assumes "Error_diff m = None" and "Diff m = differInFirst"
    and "\<not> matchExcludeOptions (wildcardMatch env) (excludeOptions opts) (TrimPrefix (FirstURL m) su)"
    and "\<not> matchExcludeOptions (wildcardMatch env) (excludeOptions opts) (TrimPrefix (SecondURL m) tu)"
  shows "deltaSourceTarget_event env opts sa su ta tu m =
           [\<lparr>SourceAlias = sa, SourceContent = firstContent m, TargetAlias = ta,
             TargetContent =
               Some \<lparr>URL = newClientURL env (urlJoinPath env tu (TrimPrefix (FirstURL m) su))\<rparr>,
             Error = None, ErrorCond = None\<rparr>] \<and>
         deltaSourceTarget_event_mirror_url env fk ov rm (excludeOptions opts) sa su ta tu m =
           [\<lparr>SourceAlias = sa, SourceContent = firstContent m, TargetAlias = ta,
             TargetContent =
               Some \<lparr>URL = newClientURL env (urlJoinPath env tu (TrimPrefix (FirstURL m) su))\<rparr>,
             Error = None, ErrorCond = None\<rparr>]"
  using assms
  by (simp add: deltaSourceTarget_event_def deltaSourceTarget_event_mirror_url_def Let_def URLs0_copy)

theorem only_in_source_copied_witness:
  "Error_diff (exampleDiff differInFirst ''src/a'' []) = None \<and>
   Diff (exampleDiff differInFirst ''src/a'' []) = differInFirst \<and>
   \<not> matchExcludeOptions (wildcardMatch (exampleEnv []))
        (excludeOptions (exampleOptions False False False False [''b'']))
        (TrimPrefix (FirstURL (exampleDiff differInFirst ''src/a'' [])) ''src/'') \<and>
   \<not> matchExcludeOptions (wildcardMatch (exampleEnv []))
        (excludeOptions (exampleOptions False False False False [''b'']))
        (TrimPrefix (SecondURL (exampleDiff differInFirst ''src/a'' [])) ''tgt/'') \<and>
   deltaSourceTarget_event (exampleEnv []) (exampleOptions False False False False [''b''])
     ''play'' ''src/'' ''play'' ''tgt/'' (exampleDiff differInFirst ''src/a'' [])
   = [\<lparr>SourceAlias = ''play'', SourceContent = Some \<lparr>URL = ''src/a''\<rparr>,
       TargetAlias = ''play'', TargetContent = Some \<lparr>URL = ''tgt/a''\<rparr>,
       Error = None, ErrorCond = None\<rparr>] \<and>
   deltaSourceTarget_event_mirror_url (exampleEnv []) False False False [''b'']
     ''play'' ''src/'' ''play'' ''tgt/'' (exampleDiff differInFirst ''src/a'' [])
   = [\<lparr>SourceAlias = ''play'', SourceContent = Some \<lparr>URL = ''src/a''\<rparr>,
       TargetAlias = ''play'', TargetContent = Some \<lparr>URL = ''tgt/a''\<rparr>,
       Error = None, ErrorCond = None\<rparr>]"
proof -
  let ?m = "exampleDiff differInFirst ''src/a'' []"
  let ?o = "exampleOptions False False False False [''b'']"
  let ?e = "exampleEnv []"
  have h1: "Error_diff ?m = None" and h2: "Diff ?m = differInFirst"
    by (simp_all add: exampleDiff_def)
  have h3: "\<not> matchExcludeOptions (wildcardMatch ?e) (excludeOptions ?o) (TrimPrefix (FirstURL ?m) ''src/'')"
    by code_simp
  have h4: "\<not> matchExcludeOptions (wildcardMatch ?e) (excludeOptions ?o) (TrimPrefix (SecondURL ?m) ''tgt/'')"
    by code_simp
  have e1: "excludeOptions ?o = [''b'']" by (simp add: exampleOptions_def)
  have e2: "firstContent ?m = Some \<lparr>URL = ''src/a''\<rparr>" by (simp add: exampleDiff_def)
  have e3: "newClientURL ?e (urlJoinPath ?e ''tgt/'' (TrimPrefix (FirstURL ?m) ''src/'')) = ''tgt/a''"
    by code_simp
  from only_in_source_copied
         [where m = ?m and opts = ?o and env = ?e and sa = "''play''" and su = "''src/''"
            and ta = "''play''" and tu = "''tgt/''" and fk = False and ov = False and rm = False,
          OF h1 h2 h3 h4]
  have "deltaSourceTarget_event ?e ?o ''play'' ''src/'' ''play'' ''tgt/'' ?m
        = [\<lparr>SourceAlias = ''play'', SourceContent = Some \<lparr>URL = ''src/a''\<rparr>,
            TargetAlias = ''play'', TargetContent = Some \<lparr>URL = ''tgt/a''\<rparr>,
            Error = None, ErrorCond = None\<rparr>] \<and>
        deltaSourceTarget_event_mirror_url ?e False False False [''b'']
          ''play'' ''src/'' ''play'' ''tgt/'' ?m
        = [\<lparr>SourceAlias = ''play'', SourceContent = Some \<lparr>URL = ''src/a''\<rparr>,
            TargetAlias = ''play'', TargetContent = Some \<lparr>URL = ''tgt/a''\<rparr>,
            Error = None, ErrorCond = None\<rparr>]"
    unfolding e1 e2 e3 .
  with h1 h2 h3 h4 show ?thesis by blast
qed




section \<open>Properties of the content difference engine\<close>

lemma eventKey_comparisonEvent [simp]: "eventKey (comparisonEvent c a b) = key a"
  by (cases c) simp_all

lemma eventKey_in:
  "e \<in> set (differenceEngine cmp src tgt) \<Longrightarrow> eventKey e \<in> key ` set src \<union> key ` set tgt"
proof (induction cmp src tgt rule: differenceEngine.induct)
  case (1 cmp s src t tgt)
  show ?case
  proof (cases "key s = key t")
    case True
    with "1.prems" have "e = comparisonEvent (cmp s t) s t \<or> e \<in> set (differenceEngine cmp src tgt)"
      by simp
    then show ?thesis
    proof
      assume "e = comparisonEvent (cmp s t) s t"
      then show ?thesis by simp
    next
      assume "e \<in> set (differenceEngine cmp src tgt)"
      with True "1.IH"(1) have "eventKey e \<in> key ` set src \<union> key ` set tgt" by simp
      then show ?thesis by auto
    qed
  next
    case False
    show ?thesis
    proof (cases "key s < key t")
      case True
      with False "1.prems" have "e = OnlyInSource s \<or> e \<in> set (differenceEngine cmp src (t # tgt))"
        by simp
      then show ?thesis
      proof
        assume "e = OnlyInSource s"
        then show ?thesis by simp
      next
        assume "e \<in> set (differenceEngine cmp src (t # tgt))"
        with False True "1.IH"(2) have "eventKey e \<in> key ` set src \<union> key ` set (t # tgt)" by simp
        then show ?thesis by auto
      qed
    next
      case nlt: False
      with False "1.prems" have "e = OnlyInTarget t \<or> e \<in> set (differenceEngine cmp (s # src) tgt)"
        by simp
      then show ?thesis
      proof
        assume "e = OnlyInTarget t"
        then show ?thesis by simp
      next
        assume "e \<in> set (differenceEngine cmp (s # src) tgt)"
        with False nlt "1.IH"(3) have "eventKey e \<in> key ` set (s # src) \<union> key ` set tgt" by simp
        then show ?thesis by auto
      qed
    qed
  qed
next
  case (2 cmp s src)
  then show ?case by auto
next
  case (3 cmp t tgt)
  then show ?case by auto
next
  case 4
  then show ?case by simp
qed

lemma sorted_wrt_Cons_keys:
  "sorted_wrt (<) (map key (x # xs)) \<Longrightarrow> k \<in> key ` set xs \<Longrightarrow> key x < k"
  by auto

lemma eventKeys_sorted:
  "sorted_wrt (<) (map key src) \<Longrightarrow> sorted_wrt (<) (map key tgt) \<Longrightarrow>
   sorted_wrt (<) (map eventKey (differenceEngine cmp src tgt))"
proof (induction cmp src tgt rule: differenceEngine.induct)
  case (1 cmp s src t tgt)
  note s_lt = sorted_wrt_Cons_keys [OF "1.prems"(1)]
  note t_lt = sorted_wrt_Cons_keys [OF "1.prems"(2)]
  from "1.prems" have ssrc: "sorted_wrt (<) (map key src)" and stgt: "sorted_wrt (<) (map key tgt)"
    by simp_all
  show ?case
  proof (cases "key s = key t")
    case True
    have "key s < eventKey e" if "e \<in> set (differenceEngine cmp src tgt)" for e
    proof -
      from that have "eventKey e \<in> key ` set src \<union> key ` set tgt" by (rule eventKey_in)
      then show ?thesis using s_lt t_lt True by auto
    qed
    moreover from True "1.IH"(1) ssrc stgt
    have "sorted_wrt (<) (map eventKey (differenceEngine cmp src tgt))" by simp
    ultimately show ?thesis using True by simp
  next
    case False
    show ?thesis
    proof (cases "key s < key t")
      case True
      have "key s < eventKey e" if "e \<in> set (differenceEngine cmp src (t # tgt))" for e
      proof -
        from that have "eventKey e \<in> key ` set src \<union> key ` set (t # tgt)" by (rule eventKey_in)
        then consider "eventKey e \<in> key ` set src" | "eventKey e = key t" | "eventKey e \<in> key ` set tgt"
          by auto
        then show ?thesis
        proof cases
          case 1 then show ?thesis by (rule s_lt)
        next
          case 2 with True show ?thesis by simp
        next
          case 3
          then have "key t < eventKey e" by (rule t_lt)
          with True show ?thesis by (rule less_trans)
        qed
      qed
      moreover from False True "1.IH"(2) ssrc "1.prems"(2)
      have "sorted_wrt (<) (map eventKey (differenceEngine cmp src (t # tgt)))" by simp
      ultimately show ?thesis using False True by simp
    next
      case nlt: False
      with False have gt: "key t < key s" by simp
      have "key t < eventKey e" if "e \<in> set (differenceEngine cmp (s # src) tgt)" for e
      proof -
        from that have "eventKey e \<in> key ` set (s # src) \<union> key ` set tgt" by (rule eventKey_in)
        then consider "eventKey e \<in> key ` set src" | "eventKey e = key s" | "eventKey e \<in> key ` set tgt"
          by auto
        then show ?thesis
        proof cases
          case 1
          then have "key s < eventKey e" by (rule s_lt)
          with gt show ?thesis by (rule less_trans)
        next
          case 2 with gt show ?thesis by simp
        next
          case 3 then show ?thesis by (rule t_lt)
        qed
      qed
      moreover from False nlt "1.IH"(3) "1.prems"(1) stgt
      have "sorted_wrt (<) (map eventKey (differenceEngine cmp (s # src) tgt))" by simp
      ultimately show ?thesis using False nlt by simp
    qed
  qed
next
  case (2 cmp s src)
  have "key s < eventKey e" if "e \<in> set (differenceEngine cmp src [])" for e
  proof -
    from eventKey_in [OF that] have "eventKey e \<in> key ` set src" by simp
    then show ?thesis by (rule sorted_wrt_Cons_keys [OF "2.prems"(1)])
  qed
  with 2 show ?case by simp
next
  case (3 cmp t tgt)
  have "key t < eventKey e" if "e \<in> set (differenceEngine cmp [] tgt)" for e
  proof -
    from eventKey_in [OF that] have "eventKey e \<in> key ` set tgt" by simp
    then show ?thesis by (rule sorted_wrt_Cons_keys [OF "3.prems"(2)])
  qed
  with 3 show ?case by simp
next
  case 4
  show ?case by simp
qed


lemma comparison_event_present:
  "sorted_wrt (<) (map key src) \<Longrightarrow> sorted_wrt (<) (map key tgt) \<Longrightarrow>
   a \<in> set src \<Longrightarrow> b \<in> set tgt \<Longrightarrow> key a = key b \<Longrightarrow>
   comparisonEvent (cmp a b) a b \<in> set (differenceEngine cmp src tgt)"
proof (induction cmp src tgt rule: differenceEngine.induct)
  case (1 cmp s src t tgt)
  note s_lt = sorted_wrt_Cons_keys [OF "1.prems"(1)]
  note t_lt = sorted_wrt_Cons_keys [OF "1.prems"(2)]
  from "1.prems" have ssrc: "sorted_wrt (<) (map key src)" and stgt: "sorted_wrt (<) (map key tgt)"
    by simp_all
  have a_src: "a \<in> set src \<Longrightarrow> key s < key a" using s_lt by simp
  have b_tgt: "b \<in> set tgt \<Longrightarrow> key t < key b" using t_lt by simp
  from "1.prems"(3) have a_cases: "a = s \<or> a \<in> set src" by simp
  from "1.prems"(4) have b_cases: "b = t \<or> b \<in> set tgt" by simp
  note eq = "1.prems"(5)
  show ?case
  proof (cases "key s = key t")
    case True
    show ?thesis
    proof (cases "a = s")
      case as: True
      with eq True b_tgt b_cases have "b = t" by auto
      with as True show ?thesis by simp
    next
      case False
      with a_cases have ain: "a \<in> set src" by simp
      with a_src eq True b_cases have bin: "b \<in> set tgt" by auto
      from "1.IH"(1) [OF True ssrc stgt ain bin eq] True show ?thesis by simp
    qed
  next
    case False
    show ?thesis
    proof (cases "key s < key t")
      case True
      have "a \<noteq> s"
      proof
        assume "a = s"
        with eq have "key b = key s" by simp
        with b_cases b_tgt True False show False by auto
      qed
      with a_cases have ain: "a \<in> set src" by simp
      from "1.IH"(2) [OF False True ssrc "1.prems"(2) ain "1.prems"(4) eq] False True
      show ?thesis by simp
    next
      case nlt: False
      with False have gt: "key t < key s" by simp
      have "b \<noteq> t"
      proof
        assume "b = t"
        with eq have "key a = key t" by simp
        with a_cases a_src gt False show False by auto
      qed
      with b_cases have bin: "b \<in> set tgt" by simp
      from "1.IH"(3) [OF False nlt "1.prems"(1) stgt "1.prems"(3) bin eq] False nlt
      show ?thesis by simp
    qed
  qed
next
  case (2 cmp s src)
  then show ?case by simp
next
  case (3 cmp t tgt)
  then show ?case by simp
next
  case 4
  then show ?case by simp
qed

lemma only_in_source_present:
  "a \<in> set src \<Longrightarrow> key a \<notin> key ` set tgt \<Longrightarrow>
   OnlyInSource a \<in> set (differenceEngine cmp src tgt)"
  by (induction cmp src tgt rule: differenceEngine.induct) auto

lemma only_in_target_present:
  "b \<in> set tgt \<Longrightarrow> key b \<notin> key ` set src \<Longrightarrow>
   OnlyInTarget b \<in> set (differenceEngine cmp src tgt)"
  by (induction cmp src tgt rule: differenceEngine.induct) auto

lemma sorted_wrt_less_distinct: "sorted_wrt (<) (xs :: string list) \<Longrightarrow> distinct xs"
  by (induction xs) auto

lemma filter_single:
  "distinct (map f xs) \<Longrightarrow> x \<in> set xs \<Longrightarrow> filter (\<lambda>e. f e = f x) xs = [x]"
proof (induction xs)
  case Nil
  then show ?case by simp
next
  case (Cons y ys)
  show ?case
  proof (cases "x = y")
    case True
    from Cons.prems(1) have "f y \<notin> f ` set ys" by simp
    then have "\<forall>e \<in> set ys. f e \<noteq> f y" by (metis imageI)
    then have "filter (\<lambda>e. f e = f y) ys = []" by (simp add: filter_empty_conv)
    with True show ?thesis by simp
  next
    case False
    with Cons.prems have xin: "x \<in> set ys" by simp
    from Cons.prems(1) have "f y \<notin> f ` set ys" by simp
    with xin have "f y \<noteq> f x" by (metis imageI)
    moreover from Cons.IH Cons.prems(1) xin have "filter (\<lambda>e. f e = f x) ys = [x]" by simp
    ultimately show ?thesis by simp
  qed
qed

text \<open>
  Claim C1. For every pair of listings whose keys are unique and in ascending
  lexicographic order, the events of the difference engine are in ascending key order
  and there is exactly one event for each key of either listing: the comparison event
  of the two entries for a key of both listings, \<open>OnlyInSource\<close> of the entry for a key
  of the source only, \<open>OnlyInTarget\<close> of the entry for a key of the target only; and
  there is no event for any other key.
\<close>

theorem one_event_per_key_in_order:
  assumes "sorted_wrt (<) (map key src)" and "sorted_wrt (<) (map key tgt)"
  shows "sorted_wrt (<) (map eventKey (differenceEngine cmp src tgt)) \<and>
         (\<forall>a \<in> set src. \<forall>b \<in> set tgt. key a = key b \<longrightarrow>
            filter (\<lambda>e. eventKey e = key a) (differenceEngine cmp src tgt)
              = [comparisonEvent (cmp a b) a b]) \<and>
         (\<forall>a \<in> set src. key a \<notin> key ` set tgt \<longrightarrow>
            filter (\<lambda>e. eventKey e = key a) (differenceEngine cmp src tgt) = [OnlyInSource a]) \<and>
         (\<forall>b \<in> set tgt. key b \<notin> key ` set src \<longrightarrow>
            filter (\<lambda>e. eventKey e = key b) (differenceEngine cmp src tgt) = [OnlyInTarget b]) \<and>
         (\<forall>e \<in> set (differenceEngine cmp src tgt). eventKey e \<in> key ` set src \<union> key ` set tgt)"
proof -
  let ?evs = "differenceEngine cmp src tgt"
  have srt: "sorted_wrt (<) (map eventKey ?evs)" using assms by (rule eventKeys_sorted)
  then have dist: "distinct (map eventKey ?evs)" by (rule sorted_wrt_less_distinct)
  have both: "filter (\<lambda>e. eventKey e = key a) ?evs = [comparisonEvent (cmp a b) a b]"
    if "a \<in> set src" "b \<in> set tgt" "key a = key b" for a b
  proof -
    from assms that have "comparisonEvent (cmp a b) a b \<in> set ?evs" by (rule comparison_event_present)
    from filter_single [OF dist this] show ?thesis by simp
  qed
  have first: "filter (\<lambda>e. eventKey e = key a) ?evs = [OnlyInSource a]"
    if "a \<in> set src" "key a \<notin> key ` set tgt" for a
  proof -
    from that have "OnlyInSource a \<in> set ?evs" by (rule only_in_source_present)
    from filter_single [OF dist this] show ?thesis by simp
  qed
  have second: "filter (\<lambda>e. eventKey e = key b) ?evs = [OnlyInTarget b]"
    if "b \<in> set tgt" "key b \<notin> key ` set src" for b
  proof -
    from that have "OnlyInTarget b \<in> set ?evs" by (rule only_in_target_present)
    from filter_single [OF dist this] show ?thesis by simp
  qed
  have keys: "eventKey e \<in> key ` set src \<union> key ` set tgt" if "e \<in> set ?evs" for e
    using that by (rule eventKey_in)
  from srt both first second keys show ?thesis by blast
qed

theorem one_event_per_key_in_order_witness:
  "sorted_wrt (<) (map key [exampleEntry ''a'' 5, exampleEntry ''b'' 10]) \<and>
   sorted_wrt (<) (map key [exampleEntry ''b'' 10, exampleEntry ''c'' 1]) \<and>
   differenceEngine exampleCompare [exampleEntry ''a'' 5, exampleEntry ''b'' 10]
       [exampleEntry ''b'' 10, exampleEntry ''c'' 1]
     = [OnlyInSource (exampleEntry ''a'' 5),
        Identical (exampleEntry ''b'' 10) (exampleEntry ''b'' 10),
        OnlyInTarget (exampleEntry ''c'' 1)] \<and>
   sorted_wrt (<) (map eventKey
     (differenceEngine exampleCompare [exampleEntry ''a'' 5, exampleEntry ''b'' 10]
        [exampleEntry ''b'' 10, exampleEntry ''c'' 1])) \<and>
   filter (\<lambda>e. eventKey e = ''a'')
     (differenceEngine exampleCompare [exampleEntry ''a'' 5, exampleEntry ''b'' 10]
        [exampleEntry ''b'' 10, exampleEntry ''c'' 1])
     = [OnlyInSource (exampleEntry ''a'' 5)] \<and>
   filter (\<lambda>e. eventKey e = ''b'')
     (differenceEngine exampleCompare [exampleEntry ''a'' 5, exampleEntry ''b'' 10]
        [exampleEntry ''b'' 10, exampleEntry ''c'' 1])
     = [Identical (exampleEntry ''b'' 10) (exampleEntry ''b'' 10)] \<and>
   filter (\<lambda>e. eventKey e = ''c'')
     (differenceEngine exampleCompare [exampleEntry ''a'' 5, exampleEntry ''b'' 10]
        [exampleEntry ''b'' 10, exampleEntry ''c'' 1])
     = [OnlyInTarget (exampleEntry ''c'' 1)]"
proof -
  let ?a = "exampleEntry ''a'' 5" and ?b = "exampleEntry ''b'' 10" and ?c = "exampleEntry ''c'' 1"
  let ?src = "[?a, ?b]" and ?tgt = "[?b, ?c]"
  let ?evs = "differenceEngine exampleCompare ?src ?tgt"
  have h1: "sorted_wrt (<) (map key ?src)" by code_simp
  have h2: "sorted_wrt (<) (map key ?tgt)" by code_simp
  have ev: "?evs = [OnlyInSource ?a, Identical ?b ?b, OnlyInTarget ?c]" by code_simp
  have ka: "key ?a = ''a''" and kb: "key ?b = ''b''" and kc: "key ?c = ''c''"
    by (simp_all add: exampleEntry_def)
  have na: "key ?a \<notin> key ` set ?tgt" and nc: "key ?c \<notin> key ` set ?src"
    by (simp_all add: exampleEntry_def)
  have cb: "comparisonEvent (exampleCompare ?b ?b) ?b ?b = Identical ?b ?b"
    by (simp add: exampleCompare_def)
  note inst = one_event_per_key_in_order [OF h1 h2, of exampleCompare]
  from inst have srt: "sorted_wrt (<) (map eventKey ?evs)" by blast
  from inst na have fa: "filter (\<lambda>e. eventKey e = key ?a) ?evs = [OnlyInSource ?a]" by simp
  from inst have "filter (\<lambda>e. eventKey e = key ?b) ?evs = [comparisonEvent (exampleCompare ?b ?b) ?b ?b]"
    by simp
  with cb have fb: "filter (\<lambda>e. eventKey e = key ?b) ?evs = [Identical ?b ?b]" by simp
  from inst nc have fc: "filter (\<lambda>e. eventKey e = key ?c) ?evs = [OnlyInTarget ?c]" by simp
  from h1 h2 ev srt fa fb fc show ?thesis unfolding ka kb kc by blast
qed

section \<open>Properties of the admission gate\<close>

lemma length_filter_dropAt:
  "i < length xs \<Longrightarrow>
   length (filter P (dropAt i xs)) + (if P (xs ! i) then 1 else 0) = length (filter P xs)"
proof -
  assume "i < length xs"
  then have "xs = take i xs @ xs ! i # drop (Suc i) xs" by (rule id_take_nth_drop)
  then have "filter P xs = filter P (take i xs) @ filter P [xs ! i] @ filter P (drop (Suc i) xs)"
    by (metis append_Cons append_Nil filter_append)
  then show ?thesis by (simp add: dropAt_def)
qed

lemma barrierSync_addWorker [simp]: "barrierSync (addWorker p) = barrierSync p"
  by (simp add: addWorker_def)

lemma queueCh_addWorker [simp]: "queueCh (addWorker p) = queueCh p"
  by (simp add: addWorker_def)

lemma barrierSync_addWorkers [simp]: "barrierSync (addWorkers n p) = barrierSync p"
proof -
  have "barrierSync ((addWorker ^^ k) p) = barrierSync p" for k
    by (induction k) simp_all
  then show ?thesis by (simp add: addWorkers_def)
qed

lemma queueCh_addWorkers [simp]: "queueCh (addWorkers n p) = queueCh p"
proof -
  have "queueCh ((addWorker ^^ k) p) = queueCh p" for k
    by (induction k) simp_all
  then show ?thesis by (simp add: addWorkers_def)
qed

lemma gateInvariant_initial: "gateInvariant (initialRun budget memStats numCPU)"
  by (simp add: gateInvariant_def initialRun_def heldTasks_def newParallelManager_def freshManager_def)

lemma doQueueTask_Done:
  assumes "doQueueTask p alloc t = Done p'"
  obtains t' m where "p' = p\<lparr>barrierSync := m, queueCh := queueCh p @ [t']\<rparr>"
    and "(if barrier t' then Lock (barrierSync p) else RLock (barrierSync p)) = Some m"
  using assms
  by (auto simp: doQueueTask_def split: outcome.splits option.splits)

lemma gateInvariant_queue:
  assumes inv: "gateInvariant r" and q: "doQueueTask (manager r) alloc t = Done p'"
  shows "gateInvariant (r\<lparr>manager := p'\<rparr>)"
proof -
  from q obtain t' m where p': "p' = (manager r)\<lparr>barrierSync := m, queueCh := queueCh (manager r) @ [t']\<rparr>"
    and lk: "(if barrier t' then Lock (barrierSync (manager r)) else RLock (barrierSync (manager r))) = Some m"
    by (rule doQueueTask_Done)
  show ?thesis
  proof (cases "barrier t'")
    case True
    with lk have "Lock (barrierSync (manager r)) = Some m" by simp
    then have "readerCount (barrierSync (manager r)) = 0" "\<not> writerHeld (barrierSync (manager r))"
      and "m = (barrierSync (manager r))\<lparr>writerHeld := True\<rparr>"
      by (auto simp: Lock_def split: if_splits)
    with inv True p' show ?thesis
      by (simp add: gateInvariant_def heldTasks_def)
  next
    case False
    with lk have "RLock (barrierSync (manager r)) = Some m" by simp
    then have "\<not> writerHeld (barrierSync (manager r))"
      and "m = (barrierSync (manager r))\<lparr>readerCount := readerCount (barrierSync (manager r)) + 1\<rparr>"
      by (auto simp: RLock_def split: if_splits)
    with inv False p' show ?thesis
      by (simp add: gateInvariant_def heldTasks_def)
  qed
qed

lemma heldTasks_receive:
  assumes i: "i < length (queueCh (manager r))"
  shows "length (filter P (heldTasks (r\<lparr>manager := (manager r)\<lparr>queueCh := dropAt i (queueCh (manager r))\<rparr>,
                          executing := executing r @ [queueCh (manager r) ! i]\<rparr>)))
         = length (filter P (heldTasks r))"
  using length_filter_dropAt [OF i, of P] by (cases "P (queueCh (manager r) ! i)") (simp_all add: heldTasks_def)

lemma heldTasks_return:
  assumes i: "i < length (executing r)"
  shows "length (filter P (heldTasks (r\<lparr>executing := dropAt i (executing r),
                          finishing := finishing r @ [executing r ! i]\<rparr>)))
         = length (filter P (heldTasks r))"
  using length_filter_dropAt [OF i, of P] by (cases "P (executing r ! i)") (simp_all add: heldTasks_def)

lemma heldTasks_release:
  assumes i: "i < length (finishing r)"
  shows "length (filter P (heldTasks (r\<lparr>manager := (manager r)\<lparr>barrierSync := m\<rparr>,
                          finishing := dropAt i (finishing r)\<rparr>)))
           + (if P (finishing r ! i) then 1 else 0)
         = length (filter P (heldTasks r))"
  using length_filter_dropAt [OF i, of P] by (cases "P (finishing r ! i)") (simp_all add: heldTasks_def)

lemma gateInvariant_receive:
  assumes inv: "gateInvariant r" and i: "i < length (queueCh (manager r))"
  shows "gateInvariant (r\<lparr>manager := (manager r)\<lparr>queueCh := dropAt i (queueCh (manager r))\<rparr>,
                          executing := executing r @ [queueCh (manager r) ! i]\<rparr>)"
proof -
  have bs: "barrierSync (manager (r\<lparr>manager := (manager r)\<lparr>queueCh := dropAt i (queueCh (manager r))\<rparr>,
                          executing := executing r @ [queueCh (manager r) ! i]\<rparr>))
            = barrierSync (manager r)"
    by simp
  from inv show ?thesis
    unfolding gateInvariant_def heldTasks_receive [OF i] bs .
qed

lemma gateInvariant_return:
  assumes inv: "gateInvariant r" and i: "i < length (executing r)"
  shows "gateInvariant (r\<lparr>executing := dropAt i (executing r),
                          finishing := finishing r @ [executing r ! i]\<rparr>)"
proof -
  have bs: "barrierSync (manager (r\<lparr>executing := dropAt i (executing r),
                          finishing := finishing r @ [executing r ! i]\<rparr>))
            = barrierSync (manager r)"
    by simp
  from inv show ?thesis
    unfolding gateInvariant_def heldTasks_return [OF i] bs .
qed

lemma gateInvariant_release:
  assumes inv: "gateInvariant r" and i: "i < length (finishing r)"
    and rel: "(if barrier (finishing r ! i) then Unlock (barrierSync (manager r))
               else RUnlock (barrierSync (manager r))) = Some m"
  shows "gateInvariant (r\<lparr>manager := (manager r)\<lparr>barrierSync := m\<rparr>,
                          finishing := dropAt i (finishing r)\<rparr>)"
proof -
  let ?r' = "r\<lparr>manager := (manager r)\<lparr>barrierSync := m\<rparr>, finishing := dropAt i (finishing r)\<rparr>"
  let ?t = "finishing r ! i"
  let ?B = "length (filter barrier (heldTasks r))"
  let ?S = "length (filter (\<lambda>t. \<not> barrier t) (heldTasks r))"
  let ?B' = "length (filter barrier (heldTasks ?r'))"
  let ?S' = "length (filter (\<lambda>t. \<not> barrier t) (heldTasks ?r'))"
  have cb: "?B' + (if barrier ?t then 1 else 0) = ?B"
    by (rule heldTasks_release [OF i])
  have cs: "?S' + (if \<not> barrier ?t then 1 else 0) = ?S"
    by (rule heldTasks_release [OF i])
  from inv have rc: "readerCount (barrierSync (manager r)) = ?S"
    and wc: "?B = (if writerHeld (barrierSync (manager r)) then 1 else 0)"
    and ex: "writerHeld (barrierSync (manager r)) \<longrightarrow> readerCount (barrierSync (manager r)) = 0"
    unfolding gateInvariant_def by blast+
  have m': "barrierSync (manager ?r') = m" by simp
  show ?thesis
  proof (cases "barrier ?t")
    case True
    with rel have w: "writerHeld (barrierSync (manager r))"
      and m: "m = (barrierSync (manager r))\<lparr>writerHeld := False\<rparr>"
      by (auto simp: Unlock_def split: if_splits)
    from True cb wc w have "?B' = 0" by simp
    moreover from True cs have "?S' = ?S" by simp
    moreover from m have "readerCount m = readerCount (barrierSync (manager r))" "\<not> writerHeld m"
      by simp_all
    ultimately show ?thesis
      unfolding gateInvariant_def m' using rc ex w by (simp del: length_0_conv)
  next
    case False
    with rel have pos: "0 < readerCount (barrierSync (manager r))"
      and m: "m = (barrierSync (manager r))\<lparr>readerCount := readerCount (barrierSync (manager r)) - 1\<rparr>"
      by (auto simp: RUnlock_def split: if_splits)
    from pos ex have nw: "\<not> writerHeld (barrierSync (manager r))" by auto
    from False cb have "?B' = ?B" by simp
    moreover from False cs have "?S' + 1 = ?S" by simp
    moreover from m have "readerCount m = readerCount (barrierSync (manager r)) - 1"
      "writerHeld m = writerHeld (barrierSync (manager r))"
      by simp_all
    ultimately show ?thesis
      unfolding gateInvariant_def m' using rc wc nw by (simp del: length_0_conv)
  qed
qed

lemma gateInvariant_step:
  assumes "gateInvariant r" and "runStep r e = Some r'"
  shows "gateInvariant r'"
proof (cases e)
  case (Queue alloc t)
  with assms(2) obtain p' where "doQueueTask (manager r) alloc t = Done p'" and "r' = r\<lparr>manager := p'\<rparr>"
    by (auto split: outcome.splits)
  with assms(1) show ?thesis by (simp add: gateInvariant_queue)
next
  case (Receive i)
  with assms(2) have "i < length (queueCh (manager r))"
    and "r' = r\<lparr>manager := (manager r)\<lparr>queueCh := dropAt i (queueCh (manager r))\<rparr>,
                 executing := executing r @ [queueCh (manager r) ! i]\<rparr>"
    by (auto split: if_splits)
  with assms(1) show ?thesis by (simp add: gateInvariant_receive)
next
  case (Return i)
  with assms(2) have "i < length (executing r)"
    and "r' = r\<lparr>executing := dropAt i (executing r), finishing := finishing r @ [executing r ! i]\<rparr>"
    by (auto split: if_splits)
  with assms(1) show ?thesis by (simp add: gateInvariant_return)
next
  case (Release i)
  with assms(2) obtain m where "i < length (finishing r)"
    and "(if barrier (finishing r ! i) then Unlock (barrierSync (manager r))
          else RUnlock (barrierSync (manager r))) = Some m"
    and "r' = r\<lparr>manager := (manager r)\<lparr>barrierSync := m\<rparr>, finishing := dropAt i (finishing r)\<rparr>"
    by (auto split: if_splits option.splits)
  with assms(1) show ?thesis by (simp add: gateInvariant_release)
next
  case AddWorker
  with assms show ?thesis by (auto simp: gateInvariant_def heldTasks_def)
next
  case (Read n)
  with assms show ?thesis by (auto simp: gateInvariant_def heldTasks_def)
qed

lemma gateInvariant_runEvents:
  "gateInvariant r \<Longrightarrow> runEvents r es = Some r' \<Longrightarrow> gateInvariant r'"
proof (induction es arbitrary: r)
  case Nil
  then show ?case by simp
next
  case (Cons e es)
  from Cons.prems(2) obtain r1 where s: "runStep r e = Some r1" and rest: "runEvents r1 es = Some r'"
    by (auto split: option.splits)
  from Cons.prems(1) s have "gateInvariant r1" by (rule gateInvariant_step)
  then show ?case using rest by (rule Cons.IH)
qed

lemma barrier_alone:
  assumes inv: "gateInvariant r" and b: "barrier t" and mem: "t \<in> set (heldTasks r)"
  shows "heldTasks r = [t]"
proof -
  from b mem have "filter barrier (heldTasks r) \<noteq> []" by (auto simp: filter_empty_conv)
  then have pos: "0 < length (filter barrier (heldTasks r))" by simp
  with inv have w: "writerHeld (barrierSync (manager r))"
    by (auto simp: gateInvariant_def split: if_splits)
  with inv have nb: "length (filter (\<lambda>t. \<not> barrier t) (heldTasks r)) = 0"
    and ob: "length (filter barrier (heldTasks r)) = 1"
    by (auto simp: gateInvariant_def)
  have "length (heldTasks r) = length (filter barrier (heldTasks r)) + length (filter (\<lambda>t. \<not> barrier t) (heldTasks r))"
    by (rule sum_length_filter_compl [symmetric])
  with nb ob have "length (heldTasks r) = 1" by simp
  then obtain x where "heldTasks r = [x]" by (cases "heldTasks r") auto
  with mem show ?thesis by simp
qed

lemma workersNum_runStep:
  assumes "runStep r e = Some r'"
  shows "workersNum (manager r) \<le> workersNum (manager r') \<and>
         (workersNum (manager r) \<le> maxParallelWorkers \<longrightarrow> workersNum (manager r') \<le> maxParallelWorkers)"
proof (cases e)
  case (Queue alloc t)
  with assms obtain p' where q: "doQueueTask (manager r) alloc t = Done p'" and r': "r' = r\<lparr>manager := p'\<rparr>"
    by (auto split: outcome.splits)
  from q obtain t' m where "p' = (manager r)\<lparr>barrierSync := m, queueCh := queueCh (manager r) @ [t']\<rparr>"
    by (rule doQueueTask_Done)
  with r' show ?thesis by simp
next
  case (Receive i)
  with assms show ?thesis by (auto split: if_splits)
next
  case (Return i)
  with assms show ?thesis by (auto split: if_splits)
next
  case (Release i)
  with assms show ?thesis by (auto split: if_splits option.splits)
next
  case AddWorker
  with assms have "r' = r\<lparr>manager := addWorker (manager r)\<rparr>" by simp
  then show ?thesis by (simp add: addWorker_mono addWorker_bound)
next
  case (Read n)
  with assms show ?thesis by auto
qed

lemma workersNum_runEvents:
  "runEvents r es = Some r' \<Longrightarrow>
   workersNum (manager r) \<le> workersNum (manager r') \<and>
   (workersNum (manager r) \<le> maxParallelWorkers \<longrightarrow> workersNum (manager r') \<le> maxParallelWorkers)"
proof (induction es arbitrary: r)
  case Nil
  then show ?case by simp
next
  case (Cons e es)
  from Cons.prems obtain r1 where s: "runStep r e = Some r1" and rest: "runEvents r1 es = Some r'"
    by (auto split: option.splits)
  from workersNum_runStep [OF s] Cons.IH [OF rest] show ?case by auto
qed

lemma release_enabled:
  assumes inv: "gateInvariant r" and i: "i < length (finishing r)"
  shows "runStep r (Release i) \<noteq> None"
proof -
  let ?t = "finishing r ! i"
  from i have mem: "?t \<in> set (heldTasks r)" by (simp add: heldTasks_def)
  show ?thesis
  proof (cases "barrier ?t")
    case True
    with mem have "filter barrier (heldTasks r) \<noteq> []" by (auto simp: filter_empty_conv)
    then have "0 < length (filter barrier (heldTasks r))" by simp
    with inv have "writerHeld (barrierSync (manager r))"
      by (auto simp: gateInvariant_def split: if_splits)
    with True i show ?thesis by (simp add: Unlock_def)
  next
    case False
    with mem have "filter (\<lambda>t. \<not> barrier t) (heldTasks r) \<noteq> []" by (auto simp: filter_empty_conv)
    then have "0 < length (filter (\<lambda>t. \<not> barrier t) (heldTasks r))" by simp
    with inv have "0 < readerCount (barrierSync (manager r))"
      unfolding gateInvariant_def by simp
    with False i show ?thesis by (simp add: RUnlock_def)
  qed
qed

text \<open>
  Claim C6. In every run of the manager, at every moment, a task with the barrier flag
  (set by the caller or by the memory check) that holds the lock, from its
  \<open>doQueueTask\<close> to the release by its worker, is the only task that holds it: no other
  task is waiting to be received, executing or finishing. So the execution of a barrier
  task overlaps with the execution of no other task: the shared holds have drained
  when it is queued, and no task is queued until its worker has released the exclusive
  hold.
\<close>

theorem barrier_task_runs_alone:
  assumes "runEvents (initialRun budget memStats numCPU) es = Some r"
    and "barrier t"
    and "t \<in> set (queueCh (manager r) @ executing r @ finishing r)"
  shows "queueCh (manager r) @ executing r @ finishing r = [t]"
proof -
  have "gateInvariant (initialRun budget memStats numCPU :: 'a run)" by (rule gateInvariant_initial)
  from this assms(1) have "gateInvariant r" by (rule gateInvariant_runEvents)
  from barrier_alone [OF this assms(2)] assms(3) show ?thesis by (simp add: heldTasks_def)
qed

theorem barrier_task_runs_alone_witness:
  "runEvents (initialRun (\<lambda>a. a) (Some 1000) 2) exampleEvents
   = Some \<lparr>manager = \<lparr>sentBytes = 0, barrierSync = \<lparr>readerCount = 0, writerHeld = True\<rparr>,
                        workersNum = 2, queueCh = [], maxMem = 1000\<rparr>,
            executing = [\<lparr>fn = ''large'', barrier = True, uploadSize = 5000\<rparr>],
            finishing = []\<rparr> \<and>
   barrier (\<lparr>fn = ''large'', barrier = True, uploadSize = 5000\<rparr> :: string task) \<and>
   runEvents (initialRun (\<lambda>a. a) (Some 1000) 2)
     (exampleEvents @ [Queue 100 \<lparr>fn = ''next'', barrier = False, uploadSize = 10\<rparr>])
   = None"
proof -
  let ?t = "\<lparr>fn = ''large'', barrier = True, uploadSize = 5000\<rparr> :: string task"
  let ?r = "\<lparr>manager = \<lparr>sentBytes = 0, barrierSync = \<lparr>readerCount = 0, writerHeld = True\<rparr>,
                        workersNum = 2, queueCh = [], maxMem = 1000\<rparr>,
            executing = [?t], finishing = []\<rparr>"
  have h1: "runEvents (initialRun (\<lambda>a. a) (Some 1000) 2) exampleEvents = Some ?r"
    by code_simp
  have h2: "barrier ?t" by simp
  have h3: "?t \<in> set (queueCh (manager ?r) @ executing ?r @ finishing ?r)" by simp
  have blocked: "runEvents (initialRun (\<lambda>a. a) (Some 1000) 2)
                   (exampleEvents @ [Queue 100 \<lparr>fn = ''next'', barrier = False, uploadSize = 10\<rparr>]) = None"
    by code_simp
  from barrier_task_runs_alone [OF h1 h2 h3]
  have "queueCh (manager ?r) @ executing ?r @ finishing ?r = [?t]" .
  with h1 h2 blocked show ?thesis by simp
qed

end
